(* ===== verification/Prelude.thy ===== *)
theory Prelude
  imports Main "HOL-Library.Word" "HOL-Library.Multiset"
begin

text \<open>
  Shared vocabulary of the development: the Python exceptions the converter can raise
  (as the datatype \<open>error\<close>), the dynamically typed values it stores in rows
  (\<open>pyval\<close>), rows as insertion-ordered Python dicts (association lists with
  Python's update-in-place and pop semantics), bytes, and the generic lemmas on these
  that the component theories use through the simpset and the collections below.
\<close>

named_theorems py_simps "characteristic equations of the models of Python built-ins"
named_theorems log_facts "how an operation extends the log of external effects"

section \<open>Python values, rows and exceptions\<close>

text \<open>
  The attribute values ElementTree produces are strings; the converter adds an integer
  (\<open>seq\<close>), a list of attribute dicts (\<open>workout_events\<close>) and the storage hash
  (\<open>workout_id\<close>); the route-track parser contributes floats, datetimes and \<open>None\<close>,
  which the converter never inspects and which are kept as their \<open>repr\<close>.
\<close>

datatype pyval =
    PStr string
  | PInt int
  | PNone
  | POther string
  | PList "pyval list"
  | PDict "(string \<times> pyval) list"

type_synonym row = "(string \<times> pyval) list"
type_synonym bytes = "8 word list"

datatype error =
    KeyError string
  | AttributeError string
  | TypeError string
  | ParseError
  | FileNotFoundError string
  | GpxError string

section \<open>Python dicts as ordered association lists\<close>

text \<open>
  A Python \<open>dict\<close> remembers insertion order; \<open>d[k] = v\<close> overwrites an existing key
  in place and appends a new one; \<open>d.pop(k)\<close> removes the key or raises \<open>KeyError\<close>.
  The abstraction to a partial map is \<open>map_of\<close>.
\<close>

fun dict_set :: "('k \<times> 'v) list \<Rightarrow> 'k \<Rightarrow> 'v \<Rightarrow> ('k \<times> 'v) list" where
  "dict_set [] k v = [(k, v)]"
| "dict_set ((k', v') # d) k v =
     (if k' = k then (k, v) # d else (k', v') # dict_set d k v)"

fun dict_pop :: "('k \<times> 'v) list \<Rightarrow> 'k \<Rightarrow> ('v \<times> ('k \<times> 'v) list) option" where
  "dict_pop [] k = None"
| "dict_pop ((k', v') # d) k =
     (if k' = k then Some (v', d)
      else map_option (\<lambda>(v, d'). (v, (k', v') # d')) (dict_pop d k))"

definition dict_keys :: "('k \<times> 'v) list \<Rightarrow> 'k list" where
  "dict_keys d = map fst d"

definition dict_ok :: "('k \<times> 'v) list \<Rightarrow> bool" where
  "dict_ok d \<longleftrightarrow> distinct (dict_keys d)"

lemma map_of_dict_set [simp, py_simps]: "map_of (dict_set d k v) = (map_of d)(k \<mapsto> v)"
  by (induction d) (auto simp: fun_eq_iff)

lemma fst_set_dict_set: "fst ` set (dict_set d k v) = insert k (fst ` set d)"
proof (induction d)
  case Nil
  then show ?case by simp
next
  case (Cons p d)
  then show ?case by (cases p) (auto simp: insert_commute)
qed

lemma keys_dict_set [simp, py_simps]: "set (dict_keys (dict_set d k v)) = insert k (set (dict_keys d))"
  by (simp add: dict_keys_def fst_set_dict_set)

lemma length_dict_set: "length (dict_set d k v) = (if k \<in> set (dict_keys d) then length d else Suc (length d))"
  by (induction d) (auto simp: dict_keys_def split: if_splits)

lemma dict_ok_dict_set [simp]: "dict_ok d \<Longrightarrow> dict_ok (dict_set d k v)"
proof (induction d)
  case Nil
  then show ?case by (simp add: dict_ok_def dict_keys_def)
next
  case (Cons p d)
  then show ?case
    by (cases p) (auto simp: dict_ok_def dict_keys_def fst_set_dict_set)
qed

lemma dict_ok_Nil [simp]: "dict_ok []"
  by (simp add: dict_ok_def dict_keys_def)

lemma dict_pop_None_iff [py_simps]: "dict_pop d k = None \<longleftrightarrow> k \<notin> set (dict_keys d)"
  by (induction d) (auto simp: dict_keys_def split: if_splits)

lemma dict_pop_Some_lookup:
  "dict_pop d k = Some (v, d') \<Longrightarrow> map_of d k = Some v"
  by (induction d arbitrary: d') (auto split: if_splits)

lemma dict_pop_Some_keys:
  "dict_pop d k = Some (v, d') \<Longrightarrow> dict_ok d \<Longrightarrow>
     dict_ok d' \<and> set (dict_keys d') = set (dict_keys d) - {k}"
proof (induction d arbitrary: d')
  case Nil
  then show ?case by simp
next
  case (Cons p d)
  obtain k' v' where p: "p = (k', v')" by fastforce
  show ?case
  proof (cases "k' = k")
    case True
    with Cons.prems p show ?thesis by (auto simp: dict_ok_def dict_keys_def)
  next
    case False
    with Cons.prems p obtain d'' where pop: "dict_pop d k = Some (v, d'')"
      and d': "d' = (k', v') # d''" by auto
    from Cons.prems(2) p have ok: "dict_ok d" and nk: "k' \<notin> set (dict_keys d)"
      by (auto simp: dict_ok_def dict_keys_def)
    from Cons.IH [OF pop ok] have "dict_ok d''" "set (dict_keys d'') = set (dict_keys d) - {k}"
      by auto
    with nk d' False p show ?thesis by (auto simp: dict_ok_def dict_keys_def)
  qed
qed

lemma dict_pop_exists: "k \<in> set (dict_keys d) \<Longrightarrow> \<exists>v d'. dict_pop d k = Some (v, d')"
  using dict_pop_None_iff [of d k] by (cases "dict_pop d k") auto

lemma dict_pop_map_of:
  "dict_pop d k = Some (v, d') \<Longrightarrow> dict_ok d \<Longrightarrow> map_of d' = (map_of d)(k := None)"
proof (induction d arbitrary: d')
  case Nil
  then show ?case by simp
next
  case (Cons p d)
  obtain k' v' where p: "p = (k', v')" by fastforce
  show ?case
  proof (cases "k' = k")
    case True
    with Cons.prems p have "d' = d" "k \<notin> set (map fst d)"
      by (auto simp: dict_ok_def dict_keys_def)
    with True p show ?thesis by (auto simp: fun_eq_iff map_of_eq_None_iff)
  next
    case False
    with Cons.prems p obtain d'' where pop: "dict_pop d k = Some (v, d'')"
      and d': "d' = (k', v') # d''" by auto
    from Cons.prems(2) p have ok: "dict_ok d" by (auto simp: dict_ok_def dict_keys_def)
    from Cons.IH [OF pop ok] d' False p show ?thesis by (auto simp: fun_eq_iff)
  qed
qed

text \<open>\<open>d.setdefault(k, []).append(v)\<close> on a dict of lists.\<close>

fun dict_setdefault_append :: "('k \<times> 'v list) list \<Rightarrow> 'k \<Rightarrow> 'v \<Rightarrow> ('k \<times> 'v list) list" where
  "dict_setdefault_append [] k v = [(k, [v])]"
| "dict_setdefault_append ((k', vs) # d) k v =
     (if k' = k then (k', vs @ [v]) # d else (k', vs) # dict_setdefault_append d k v)"

section \<open>Lists\<close>

text \<open>Removing duplicates keeping the first occurrence, the order of a Python dict's keys.\<close>

fun dedup_from :: "'a list \<Rightarrow> 'a list \<Rightarrow> 'a list" where
  "dedup_from seen [] = []"
| "dedup_from seen (x # xs) =
     (if x \<in> set seen then dedup_from seen xs else x # dedup_from (x # seen) xs)"

definition dedup :: "'a list \<Rightarrow> 'a list" where
  "dedup xs = dedup_from [] xs"

lemma set_dedup_from: "set (dedup_from seen xs) = set xs - set seen"
  by (induction seen xs rule: dedup_from.induct) auto

lemma distinct_dedup_from: "distinct (dedup_from seen xs)"
  by (induction seen xs rule: dedup_from.induct) (auto simp: set_dedup_from)

lemma dedup_from_snoc:
  "dedup_from seen (xs @ [x]) = dedup_from seen xs @ (if x \<in> set seen \<union> set xs then [] else [x])"
  by (induction seen xs rule: dedup_from.induct) auto

lemma set_dedup [simp]: "set (dedup xs) = set xs"
  by (simp add: dedup_def set_dedup_from)

lemma distinct_dedup [simp]: "distinct (dedup xs)"
  by (simp add: dedup_def distinct_dedup_from)

lemma dedup_from_const: "t \<in> set seen \<Longrightarrow> dedup_from seen (map (\<lambda>_. t) xs) = []"
  by (induction xs arbitrary: seen) auto

lemma dedup_snoc: "dedup (xs @ [x]) = (if x \<in> set xs then dedup xs else dedup xs @ [x])"
  by (simp add: dedup_def dedup_from_snoc)

lemma dedup_Nil [simp]: "dedup [] = []"
  by (simp add: dedup_def)

text \<open>The values a list of pairs holds for one key, in order.\<close>

definition vals_of :: "'k \<Rightarrow> ('k \<times> 'v) list \<Rightarrow> 'v list" where
  "vals_of k ps = map snd (filter (\<lambda>p. fst p = k) ps)"

lemma vals_of_snoc [simp]:
  "vals_of k (ps @ [(k', v)]) = vals_of k ps @ (if k' = k then [v] else [])"
  by (simp add: vals_of_def)

lemma vals_of_notin: "k \<notin> set (map fst ps) \<Longrightarrow> vals_of k ps = []"
  by (induction ps) (auto simp: vals_of_def)

lemma setdefault_append_map:
  "distinct ks \<Longrightarrow>
   dict_setdefault_append (map (\<lambda>k'. (k', f k')) ks) k v =
     (if k \<in> set ks then map (\<lambda>k'. (k', f k' @ (if k' = k then [v] else []))) ks
      else map (\<lambda>k'. (k', f k')) ks @ [(k, [v])])"
  by (induction ks) auto


lemma sum_list_map_length_concat: "sum_list (map length xss) = length (concat xss)"
  by (induction xss) auto

lemma int_sum_list_length: "int (sum_list (map length xs)) = sum_list (map (\<lambda>c. int (length c)) xs)"
  by (induction xs) auto

lemma vals_of_length: "length (vals_of t ps) \<le> length ps"
  by (simp add: vals_of_def)

end
