(* ===== verification/Storage_Interface.thy ===== *)
theory Storage_Interface
  imports Prelude
begin

text \<open>
  The interface between the converter and its collaborators. The storage engine
  (sqlite-utils), the archive/file resolver and the progress callback are outside the
  repository; the converter's behaviour towards them is the ordered list of calls it
  makes. An \<open>effect\<close> is one such call with its arguments; a run of the converter
  appends effects to a log, and a failed run keeps the effects performed before the
  exception, as the database keeps the batches already flushed.
\<close>

text \<open>Keyword arguments of \<open>Table.insert\<close> and \<open>Table.insert_all\<close>.\<close>

record ins_opts =
  alter :: bool
  column_order :: "string list"
  batch_size :: nat
  foreign_keys :: "(string \<times> string) list"
  hash_id :: "string option"

text \<open>sqlite-utils' defaults for the arguments the converter does not pass.\<close>

definition default_opts :: ins_opts where
  "default_opts = \<lparr>alter = False, column_order = [], batch_size = 100,
                   foreign_keys = [], hash_id = None\<rparr>"

datatype effect =
    InsertAll string "row list" ins_opts  \<comment> \<open>\<open>db[table].insert_all(rows, ...)\<close>\<close>
  | Insert string row ins_opts            \<comment> \<open>\<open>db[table].insert(row, ...)\<close>\<close>
  | OpenFile string                       \<comment> \<open>\<open>open_file_or_zip(zf, path)\<close>\<close>
  | Progress int                          \<comment> \<open>\<open>progress_callback(n)\<close>\<close>

type_synonym log = "effect list"

text \<open>
  An operation that may raise: \<open>Inl (e, log)\<close> is the exception \<open>e\<close> raised with
  the effects \<open>log\<close> already performed, \<open>Inr x\<close> the normal result.
\<close>

type_synonym 'a outcome = "(error \<times> log) + 'a"

section \<open>Reading the log\<close>

text \<open>The rows a log writes to one table by \<open>insert_all\<close>, one list per call.\<close>

fun batches_to :: "string \<Rightarrow> log \<Rightarrow> row list list" where
  "batches_to t [] = []"
| "batches_to t (InsertAll t' rs o' # l) =
     (if t' = t then rs # batches_to t l else batches_to t l)"
| "batches_to t (_ # l) = batches_to t l"

text \<open>The rows a log writes to one table by single \<open>insert\<close> calls.\<close>

fun inserts_to :: "string \<Rightarrow> log \<Rightarrow> row list" where
  "inserts_to t [] = []"
| "inserts_to t (Insert t' r o' # l) =
     (if t' = t then r # inserts_to t l else inserts_to t l)"
| "inserts_to t (_ # l) = inserts_to t l"

text \<open>The paths handed to the archive/file resolver, and the progress reports.\<close>

fun opened :: "log \<Rightarrow> string list" where
  "opened [] = []"
| "opened (OpenFile p # l) = p # opened l"
| "opened (_ # l) = opened l"

fun progress_of :: "log \<Rightarrow> int list" where
  "progress_of [] = []"
| "progress_of (Progress n # l) = n # progress_of l"
| "progress_of (_ # l) = progress_of l"

lemma batches_to_append [simp]: "batches_to t (l1 @ l2) = batches_to t l1 @ batches_to t l2"
  by (induction t l1 rule: batches_to.induct) auto

lemma inserts_to_append [simp]: "inserts_to t (l1 @ l2) = inserts_to t l1 @ inserts_to t l2"
  by (induction t l1 rule: inserts_to.induct) auto

lemma opened_append [simp]: "opened (l1 @ l2) = opened l1 @ opened l2"
  by (induction l1 rule: opened.induct) auto

lemma progress_of_append [simp]: "progress_of (l1 @ l2) = progress_of l1 @ progress_of l2"
  by (induction l1 rule: progress_of.induct) auto

end
