(* ===== verification/Xml_Elements.thy ===== *)
theory Xml_Elements
  imports Storage_Interface
begin

text \<open>
  The part of ElementTree the converter relies on: elements with a tag, an attribute
  dict and children; the events of \<open>XMLPullParser\<close>; \<open>findall\<close> on the two kinds of
  path the code uses (\<open>"Tag"\<close> and \<open>"Parent/Tag"\<close>); \<open>el.get\<close>, \<open>el.attrib[k]\<close>
  and \<open>el.set\<close>. These are library semantics, written after the ElementTree
  documentation.
\<close>

datatype element = Element (el_tag: string) (el_attrib: row) (el_children: "element list")

text \<open>
  \<open>XMLPullParser.read_events()\<close> yields \<open>("start", el)\<close> and \<open>("end", el)\<close>; a
  syntax error found while feeding is queued and raised by \<open>read_events\<close> when it is
  reached (\<open>EvError\<close>).
\<close>

datatype xml_event = EvStart element | EvEnd element | EvError

text \<open>\<open>findall(p)\<close> for a path of tags, each step selecting the children with that tag.\<close>

definition children_tagged :: "string \<Rightarrow> element list \<Rightarrow> element list" where
  "children_tagged t es = concat (map (\<lambda>e. filter (\<lambda>c. el_tag c = t) (el_children e)) es)"

definition findall :: "element \<Rightarrow> string list \<Rightarrow> element list" where
  "findall e path = fold children_tagged path [e]"

text \<open>\<open>el.get(k)\<close>, \<open>el.attrib[k]\<close> and \<open>el.set(k, v)\<close>.\<close>

definition el_get :: "element \<Rightarrow> string \<Rightarrow> pyval option" where
  "el_get e k = map_of (el_attrib e) k"

definition attrib_item :: "element \<Rightarrow> string \<Rightarrow> error + pyval" where
  "attrib_item e k = (case map_of (el_attrib e) k of None \<Rightarrow> Inl (KeyError k) | Some v \<Rightarrow> Inr v)"

definition el_set :: "element \<Rightarrow> string \<Rightarrow> pyval \<Rightarrow> element" where
  "el_set e k v = Element (el_tag e) (dict_set (el_attrib e) k v) (el_children e)"

lemma findall_single:
  "findall e [t] = filter (\<lambda>c. el_tag c = t) (el_children e)"
  by (simp add: findall_def children_tagged_def)

lemma findall_two:
  "findall e [t1, t2] =
     concat (map (\<lambda>c. filter (\<lambda>d. el_tag d = t2) (el_children c))
                 (filter (\<lambda>c. el_tag c = t1) (el_children e)))"
  by (simp add: findall_def children_tagged_def)

lemma el_set_sel [simp]:
  "el_tag (el_set e k v) = el_tag e"
  "el_attrib (el_set e k v) = dict_set (el_attrib e) k v"
  "el_children (el_set e k v) = el_children e"
  by (simp_all add: el_set_def)

lemma attrib_item_Inr: "attrib_item e k = Inr v \<longleftrightarrow> map_of (el_attrib e) k = Some v"
  by (simp add: attrib_item_def split: option.splits)

end
