(* ===== verification/Tag_Stream.thy ===== *)
theory Tag_Stream
  imports Xml_Elements "HOL-Library.While_Combinator"
begin

text \<open>
  The Tag Stream Extractor, \<open>find_all_tags\<close> (src/healthkit_to_sqlite/utils.py,
  lines 10--25). The stream is read in chunks of 1 MiB until \<open>read\<close> returns an empty
  chunk (\<open>read_chunks\<close>); each chunk is fed to the incremental parser, a collaborator
  whose state is the type variable \<open>'p\<close> and whose \<open>feed\<close> returns the events
  \<open>read_events\<close> then reports; for every event the root is remembered at the first
  start and cleared afterwards (\<open>root.clear()\<close> on \<open>None\<close> raises
  \<open>AttributeError\<close>), and an end event of an interesting tag is yielded. After a chunk's
  events the progress callback receives the chunk's length.

  The generator is modelled by the list of what it does, in order: a \<open>Yield\<close> per
  element it hands to the consumer and a \<open>Callback\<close> per progress report, followed
  by the exception it raises, if any. The consumer runs between two items, and the
  generator reads nothing the consumer writes, so folding the consumer over this list
  performs the same calls in the same order as the lazy interleaving.
\<close>

definition chunk_size :: nat where
  "chunk_size = 1024 * 1024"

function read_chunks :: "nat \<Rightarrow> 'a list \<Rightarrow> 'a list list" where
  "read_chunks n s = (let c = take n s in if c = [] then [] else c # read_chunks n (drop n s))"
  by pat_completeness auto
termination
  by (relation "measure (\<lambda>(n, s). length s)") auto

declare read_chunks.simps [simp del]

datatype gen_item = Yield string element | Callback nat

text \<open>The inner \<open>for event, el in parser.read_events()\<close> loop over one chunk's events.\<close>

fun process_events ::
  "string set \<Rightarrow> element option \<Rightarrow> xml_event list \<Rightarrow> gen_item list \<times> error option \<times> element option"
where
  "process_events tags root [] = ([], None, root)"
| "process_events tags root (EvError # evs) = ([], Some ParseError, root)"
| "process_events tags root (EvStart el # evs) =
     process_events tags (case root of None \<Rightarrow> Some el | Some r \<Rightarrow> Some r) evs"
| "process_events tags root (EvEnd el # evs) =
     (let out = (if el_tag el \<in> tags then [Yield (el_tag el) el] else []) in
      case root of
        None \<Rightarrow> (out, Some (AttributeError ''clear''), None)
      | Some r \<Rightarrow>
          (case process_events tags root evs of
             (items, err, root') \<Rightarrow> (out @ items, err, root')))"

text \<open>The outer \<open>while True\<close> loop over the chunks.\<close>

fun find_all_chunks ::
  "('p \<Rightarrow> bytes \<Rightarrow> 'p \<times> xml_event list) \<Rightarrow> string set \<Rightarrow> bool \<Rightarrow> 'p \<Rightarrow> element option \<Rightarrow>
   bytes list \<Rightarrow> gen_item list \<times> error option"
where
  "find_all_chunks feed tags cb p root [] = ([], None)"
| "find_all_chunks feed tags cb p root (c # cs) =
     (case feed p c of
        (p', evs) \<Rightarrow>
          (case process_events tags root evs of
             (items, Some e, root') \<Rightarrow> (items, Some e)
           | (items, None, root') \<Rightarrow>
               (case find_all_chunks feed tags cb p' root' cs of
                  (rest, err) \<Rightarrow>
                    (items @ (if cb then [Callback (length c)] else []) @ rest, err))))"

definition find_all_tags ::
  "('p \<Rightarrow> bytes \<Rightarrow> 'p \<times> xml_event list) \<Rightarrow> 'p \<Rightarrow> bytes \<Rightarrow> string set \<Rightarrow> bool \<Rightarrow>
   gen_item list \<times> error option"
where
  "find_all_tags feed p0 fp tags cb = find_all_chunks feed tags cb p0 None (read_chunks chunk_size fp)"

text \<open>
  The same generator as the \<open>while True\<close> loop of lines 13--25, kept as a loop: the
  state is the parser, \<open>root\<close>, the unread input, the items produced and the
  exception raised; the loop stops when a read returns nothing or an exception is raised.
\<close>

type_synonym 'p gen_loop_state = "'p \<times> element option \<times> bytes \<times> gen_item list \<times> error option"

definition gen_loop_body ::
  "('p \<Rightarrow> bytes \<Rightarrow> 'p \<times> xml_event list) \<Rightarrow> string set \<Rightarrow> bool \<Rightarrow> 'p gen_loop_state \<Rightarrow> 'p gen_loop_state"
where
  "gen_loop_body feed tags cb =
     (\<lambda>(p, root, s, items, err).
        (let chunk = take chunk_size s in
         case feed p chunk of
           (p', evs) \<Rightarrow>
             (case process_events tags root evs of
                (its, e, root') \<Rightarrow>
                  (p', root', drop chunk_size s,
                   items @ its @ (if e = None \<and> cb then [Callback (length chunk)] else []), e))))"

definition find_all_loop ::
  "('p \<Rightarrow> bytes \<Rightarrow> 'p \<times> xml_event list) \<Rightarrow> 'p \<Rightarrow> bytes \<Rightarrow> string set \<Rightarrow> bool \<Rightarrow>
   (gen_item list \<times> error option) option"
where
  "find_all_loop feed p0 fp tags cb =
     map_option (\<lambda>(p, root, s, items, err). (items, err))
       (while_option (\<lambda>(p, root, s, items, err). err = None \<and> take chunk_size s \<noteq> [])
          (gen_loop_body feed tags cb) (p0, None, fp, [], None))"

section \<open>Reference behaviour\<close>

text \<open>
  What the extractor promises: the events the parser reports for the chunks, in order;
  the elements of the end events with an interesting tag; and, chunk by chunk, those
  elements followed by the chunk's progress report.
\<close>

fun parser_events :: "('p \<Rightarrow> bytes \<Rightarrow> 'p \<times> xml_event list) \<Rightarrow> 'p \<Rightarrow> bytes list \<Rightarrow> xml_event list" where
  "parser_events feed p [] = []"
| "parser_events feed p (c # cs) = (case feed p c of (p', evs) \<Rightarrow> evs @ parser_events feed p' cs)"

definition end_matches :: "string set \<Rightarrow> xml_event list \<Rightarrow> element list" where
  "end_matches tags evs =
     concat (map (\<lambda>ev. case ev of EvEnd e \<Rightarrow> if el_tag e \<in> tags then [e] else [] | _ \<Rightarrow> []) evs)"

definition yield_of :: "element \<Rightarrow> gen_item" where
  "yield_of e = Yield (el_tag e) e"

fun gen_reference ::
  "('p \<Rightarrow> bytes \<Rightarrow> 'p \<times> xml_event list) \<Rightarrow> string set \<Rightarrow> bool \<Rightarrow> 'p \<Rightarrow> bytes list \<Rightarrow> gen_item list"
where
  "gen_reference feed tags cb p [] = []"
| "gen_reference feed tags cb p (c # cs) =
     (case feed p c of
        (p', evs) \<Rightarrow> map yield_of (end_matches tags evs) @
                     (if cb then [Callback (length c)] else []) @ gen_reference feed tags cb p' cs)"

definition starts_with_end :: "xml_event list \<Rightarrow> bool" where
  "starts_with_end evs = (case evs of EvEnd e # _ \<Rightarrow> True | _ \<Rightarrow> False)"

text \<open>A stream the extractor handles without an exception.\<close>

definition stream_ok :: "xml_event list \<Rightarrow> bool" where
  "stream_ok evs \<longleftrightarrow> EvError \<notin> set evs \<and> \<not> starts_with_end evs"

fun yields :: "gen_item list \<Rightarrow> (string \<times> element) list" where
  "yields [] = []"
| "yields (Yield t e # is) = (t, e) # yields is"
| "yields (Callback n # is) = yields is"

fun callbacks :: "gen_item list \<Rightarrow> nat list" where
  "callbacks [] = []"
| "callbacks (Yield t e # is) = callbacks is"
| "callbacks (Callback n # is) = n # callbacks is"

section \<open>Lemmas\<close>

lemma read_chunks_Cons_iff:
  "read_chunks n s = (if n = 0 \<or> s = [] then [] else take n s # read_chunks n (drop n s))"
  by (subst read_chunks.simps) (simp add: Let_def)

lemma read_chunks_Nil [simp]: "read_chunks n [] = []"
  by (simp add: read_chunks_Cons_iff)

lemma read_chunks_single:
  assumes "s \<noteq> []" and "length s \<le> n"
  shows "read_chunks n s = [s]"
proof -
  from assms have "n \<noteq> 0" by (cases s) auto
  with assms show ?thesis by (simp add: read_chunks_Cons_iff [of n s])
qed

lemma read_chunks_concat: "0 < n \<Longrightarrow> concat (read_chunks n s) = s"
proof (induction n s rule: read_chunks.induct)
  case (1 n s)
  then show ?case by (subst read_chunks_Cons_iff) simp
qed

lemma read_chunks_bounds: "c \<in> set (read_chunks n s) \<Longrightarrow> c \<noteq> [] \<and> length c \<le> n"
proof (induction n s rule: read_chunks.induct)
  case (1 n s)
  then show ?case by (subst (asm) read_chunks_Cons_iff) (auto split: if_splits)
qed

lemma read_chunks_full:
  "i + 1 < length (read_chunks n s) \<Longrightarrow> length (read_chunks n s ! i) = n"
proof (induction n s arbitrary: i rule: read_chunks.induct)
  case (1 n s)
  show ?case
  proof (cases "n = 0 \<or> s = []")
    case True
    with "1.prems" show ?thesis by (simp add: read_chunks_Cons_iff [of n s])
  next
    case False
    then have eq: "read_chunks n s = take n s # read_chunks n (drop n s)"
      by (simp add: read_chunks_Cons_iff [of n s])
    show ?thesis
    proof (cases i)
      case 0
      with "1.prems" eq have "drop n s \<noteq> []"
        by (auto simp: read_chunks_Cons_iff [of n "drop n s"])
      with 0 eq show ?thesis by simp
    next
      case (Suc j)
      with "1.prems" eq have "j + 1 < length (read_chunks n (drop n s))" by simp
      with "1.IH" False Suc eq show ?thesis by (simp add: Let_def)
    qed
  qed
qed

lemma process_events_ok:
  assumes "EvError \<notin> set evs" and "root \<noteq> None \<or> \<not> starts_with_end evs"
  shows "process_events tags root evs =
           (map yield_of (end_matches tags evs), None,
            (case root of None \<Rightarrow> (case evs of EvStart e # _ \<Rightarrow> Some e | _ \<Rightarrow> None) | Some r \<Rightarrow> Some r))"
  using assms
proof (induction tags root evs rule: process_events.induct)
  case (1 tags root)
  then show ?case by (simp add: end_matches_def split: option.splits)
next
  case (2 tags root evs)
  then show ?case by simp
next
  case (3 tags root el evs)
  then show ?case by (auto simp: end_matches_def starts_with_end_def split: option.splits)
next
  case (4 tags root el evs)
  then show ?case
    by (auto simp: end_matches_def starts_with_end_def yield_of_def Let_def split: option.splits)
qed

lemma find_all_chunks_ok:
  assumes "EvError \<notin> set (parser_events feed p cs)"
    and "root \<noteq> None \<or> \<not> starts_with_end (parser_events feed p cs)"
  shows "find_all_chunks feed tags cb p root cs = (gen_reference feed tags cb p cs, None)"
  using assms
proof (induction cs arbitrary: p root)
  case Nil
  then show ?case by simp
next
  case (Cons c cs)
  obtain p' evs where fd: "feed p c = (p', evs)" by fastforce
  let ?rest = "parser_events feed p' cs"
  let ?root' = "case root of None \<Rightarrow> (case evs of EvStart e # _ \<Rightarrow> Some e | _ \<Rightarrow> None) | Some r \<Rightarrow> Some r"
  from Cons.prems fd have err: "EvError \<notin> set evs" "EvError \<notin> set ?rest" by auto
  from Cons.prems(2) fd have "root \<noteq> None \<or> \<not> starts_with_end evs"
    by (auto simp: starts_with_end_def split: list.splits)
  with err(1) have pe: "process_events tags root evs = (map yield_of (end_matches tags evs), None, ?root')"
    by (rule process_events_ok)
  have "?root' \<noteq> None \<or> \<not> starts_with_end ?rest"
  proof (cases root)
    case None
    with Cons.prems(2) fd have "\<not> starts_with_end (evs @ ?rest)" by simp
    with err(1) None show ?thesis
      by (cases evs rule: list.exhaust) (auto simp: starts_with_end_def split: xml_event.splits)
  qed simp
  with err(2) have "find_all_chunks feed tags cb p' ?root' cs = (gen_reference feed tags cb p' cs, None)"
    by (rule Cons.IH)
  with fd pe show ?case by simp
qed

lemma yields_append [simp]: "yields (xs @ ys) = yields xs @ yields ys"
  by (induction xs rule: yields.induct) auto

lemma callbacks_append [simp]: "callbacks (xs @ ys) = callbacks xs @ callbacks ys"
  by (induction xs rule: callbacks.induct) auto

lemma yields_map_yield_of [simp]: "yields (map yield_of es) = map (\<lambda>e. (el_tag e, e)) es"
  by (induction es) (auto simp: yield_of_def)

lemma callbacks_map_yield_of [simp]: "callbacks (map yield_of es) = []"
  by (induction es) (auto simp: yield_of_def)

lemma end_matches_Nil [simp]: "end_matches tags [] = []"
  by (simp add: end_matches_def)

lemma end_matches_append [simp]: "end_matches tags (xs @ ys) = end_matches tags xs @ end_matches tags ys"
  by (simp add: end_matches_def)

lemma yields_gen_reference:
  "yields (gen_reference feed tags cb p cs) = map (\<lambda>e. (el_tag e, e)) (end_matches tags (parser_events feed p cs))"
  by (induction cs arbitrary: p) (auto split: prod.splits)

lemma callbacks_gen_reference:
  "callbacks (gen_reference feed tags cb p cs) = (if cb then map length cs else [])"
  by (induction cs arbitrary: p) (auto split: prod.splits)

lemma chunk_size_pos: "0 < chunk_size"
  by (simp add: chunk_size_def)

lemma find_all_tags_ok_eq:
  assumes "stream_ok (parser_events feed p0 (read_chunks chunk_size fp))"
  shows "find_all_tags feed p0 fp tags cb = (gen_reference feed tags cb p0 (read_chunks chunk_size fp), None)"
  using assms unfolding find_all_tags_def stream_ok_def
  by (intro find_all_chunks_ok) auto

lemma sum_callbacks_read_chunks:
  "sum_list (map length (read_chunks chunk_size fp)) = length fp"
  by (simp add: sum_list_map_length_concat read_chunks_concat chunk_size_pos)

lemma process_events_error:
  "process_events tags root evs = (items, Some e, r) \<Longrightarrow> e = ParseError \<or> e = AttributeError ''clear''"
  by (induction tags root evs arbitrary: items r rule: process_events.induct)
     (auto simp: Let_def split: option.splits prod.splits)

lemma find_all_chunks_error:
  "find_all_chunks feed tags cb p root cs = (items, Some e) \<Longrightarrow> e = ParseError \<or> e = AttributeError ''clear''"
  by (induction cs arbitrary: p root items)
     (auto dest: process_events_error split: prod.splits option.splits)

lemma process_events_raises:
  "EvError \<in> set evs \<Longrightarrow> fst (snd (process_events tags root evs)) \<noteq> None"
proof (induction tags root evs rule: process_events.induct)
  case (4 tags root el evs)
  then show ?case by (cases root) (simp_all add: Let_def prod.case_eq_if)
qed auto

lemma find_all_chunks_raises:
  "EvError \<in> set (parser_events feed p cs) \<Longrightarrow> snd (find_all_chunks feed tags cb p root cs) \<noteq> None"
proof (induction cs arbitrary: p root)
  case Nil
  then show ?case by simp
next
  case (Cons c cs)
  obtain p' evs where fd: "feed p c = (p', evs)" by fastforce
  show ?case
  proof (cases "EvError \<in> set evs")
    case True
    then have "fst (snd (process_events tags root evs)) \<noteq> None" by (rule process_events_raises)
    with fd show ?thesis by (auto split: prod.splits option.splits)
  next
    case False
    with Cons.prems fd have "EvError \<in> set (parser_events feed p' cs)" by simp
    note ih = Cons.IH [OF this]
    obtain items err r where pe: "process_events tags root evs = (items, err, r)"
      by (cases "process_events tags root evs") auto
    obtain rest err' where fc: "find_all_chunks feed tags cb p' r cs = (rest, err')"
      by fastforce
    from ih [of r] fc have "err' \<noteq> None" by simp
    with fd pe fc show ?thesis by (cases err) auto
  qed
qed


lemma gen_loop_from:
  "map_option (\<lambda>(p, root, s, items, err). (items, err))
     (while_option (\<lambda>(p, root, s, items, err). err = None \<and> take chunk_size s \<noteq> [])
        (gen_loop_body feed tags cb) (p, root, s, acc, None)) =
   Some (acc @ fst (find_all_chunks feed tags cb p root (read_chunks chunk_size s)),
         snd (find_all_chunks feed tags cb p root (read_chunks chunk_size s)))"
proof (induction s arbitrary: p root acc rule: length_induct)
  case (1 s)
  show ?case
  proof (cases "s = []")
    case True
    then show ?thesis by (subst while_option_unfold) simp
  next
    case False
    then have ne: "take chunk_size s \<noteq> []" by (simp add: chunk_size_pos)
    obtain p' evs where fd: "feed p (take chunk_size s) = (p', evs)" by fastforce
    obtain its e root' where pe: "process_events tags root evs = (its, e, root')" by (cases "process_events tags root evs") auto
    have rc: "read_chunks chunk_size s = take chunk_size s # read_chunks chunk_size (drop chunk_size s)"
      using False chunk_size_pos by (subst read_chunks_Cons_iff) simp
    let ?B = "\<lambda>(p, root, s, items, err). err = None \<and> take chunk_size s \<noteq> []"
    let ?C = "gen_loop_body feed tags cb"
    let ?cbs = "if cb then [Callback (length (take chunk_size s))] else []"
    have unf: "while_option ?B ?C (p, root, s, acc, None) = while_option ?B ?C (?C (p, root, s, acc, None))"
      using ne by (subst while_option_unfold) simp
    show ?thesis
    proof (cases e)
      case None
      have step: "?C (p, root, s, acc, None) = (p', root', drop chunk_size s, acc @ its @ ?cbs, None)"
        using fd pe None by (simp add: gen_loop_body_def Let_def)
      have ih: "map_option (\<lambda>(p, root, s, items, err). (items, err))
          (while_option ?B ?C (p', root', drop chunk_size s, acc @ its @ ?cbs, None)) =
        Some ((acc @ its @ ?cbs) @ fst (find_all_chunks feed tags cb p' root' (read_chunks chunk_size (drop chunk_size s))),
              snd (find_all_chunks feed tags cb p' root' (read_chunks chunk_size (drop chunk_size s))))"
        using False chunk_size_pos by (intro 1 [rule_format]) simp
      have fa: "find_all_chunks feed tags cb p root (read_chunks chunk_size s) =
          (its @ ?cbs @ fst (find_all_chunks feed tags cb p' root' (read_chunks chunk_size (drop chunk_size s))),
           snd (find_all_chunks feed tags cb p' root' (read_chunks chunk_size (drop chunk_size s))))"
        using rc fd pe None by (simp split: prod.splits)
      show ?thesis using unf step ih fa by simp
    next
      case (Some err)
      have step: "?C (p, root, s, acc, None) = (p', root', drop chunk_size s, acc @ its, Some err)"
        using fd pe Some by (simp add: gen_loop_body_def Let_def)
      have stop: "while_option ?B ?C (p', root', drop chunk_size s, acc @ its, Some err) =
                    Some (p', root', drop chunk_size s, acc @ its, Some err)"
        by (subst while_option_unfold) simp
      have fa: "find_all_chunks feed tags cb p root (read_chunks chunk_size s) = (its, Some err)"
        using rc fd pe Some by simp
      show ?thesis using unf step stop fa by simp
    qed
  qed
qed

lemma callbacks_process_events: "callbacks (fst (process_events tags root evs)) = []"
  by (induction tags root evs rule: process_events.induct) (auto simp: Let_def prod.case_eq_if split: option.splits)

lemma find_all_chunks_callbacks:
  "\<exists>k. callbacks (fst (find_all_chunks feed tags cb p root cs)) = (if cb then map length (take k cs) else [])"
proof (induction cs arbitrary: p root)
  case Nil
  show ?case by simp
next
  case (Cons c cs)
  obtain p' evs where fd: "feed p c = (p', evs)" by fastforce
  obtain its e root' where pe: "process_events tags root evs = (its, e, root')" by (cases "process_events tags root evs") auto
  from callbacks_process_events [of tags root evs] pe have its: "callbacks its = []" by simp
  show ?case
  proof (cases e)
    case None
    from Cons.IH [of p' root'] obtain k where
      k: "callbacks (fst (find_all_chunks feed tags cb p' root' cs)) = (if cb then map length (take k cs) else [])" ..
    have "callbacks (fst (find_all_chunks feed tags cb p root (c # cs))) =
            (if cb then map length (take (Suc k) (c # cs)) else [])"
      using fd pe None its k by (simp add: prod.case_eq_if)
    then show ?thesis ..
  next
    case (Some err)
    with fd pe its have "callbacks (fst (find_all_chunks feed tags cb p root (c # cs))) =
            (if cb then map length (take 0 (c # cs)) else [])" by simp
    then show ?thesis ..
  qed
qed

lemma chunk_reports_bounds:
  "(\<forall>x \<in> set (map (\<lambda>c. int (length c)) (take k (read_chunks chunk_size fp))). 0 < x \<and> x \<le> int chunk_size) \<and>
   sum_list (map (\<lambda>c. int (length c)) (take k (read_chunks chunk_size fp))) \<le> int (length fp)"
proof -
  have b: "c \<in> set (take k (read_chunks chunk_size fp)) \<Longrightarrow> c \<noteq> [] \<and> length c \<le> chunk_size" for c
    by (meson in_set_takeD read_chunks_bounds)
  have "sum_list (map length (take k (read_chunks chunk_size fp))) \<le> sum_list (map length (read_chunks chunk_size fp))"
    by (metis append_take_drop_id le_add1 map_append sum_list_append)
  then have "sum_list (map length (take k (read_chunks chunk_size fp))) \<le> length fp"
    by (simp add: sum_callbacks_read_chunks)
  then have "int (sum_list (map length (take k (read_chunks chunk_size fp)))) \<le> int (length fp)"
    by (simp only: of_nat_le_iff)
  then have "sum_list (map (\<lambda>c. int (length c)) (take k (read_chunks chunk_size fp))) \<le> int (length fp)"
    by (simp only: int_sum_list_length)
  moreover have "\<forall>x \<in> set (map (\<lambda>c. int (length c)) (take k (read_chunks chunk_size fp))). 0 < x \<and> x \<le> int chunk_size"
    using b by fastforce
  ultimately show ?thesis by blast
qed

section \<open>Properties of the extractor\<close>

text \<open>
  C10. The read loop consumes the whole stream: the chunks it reads are non-empty, at most
  one MiB long, all but the last exactly one MiB, and they concatenate to the stream.
\<close>

theorem read_chunks_spec:
  "concat (read_chunks chunk_size fp) = fp \<and>
   (\<forall>c \<in> set (read_chunks chunk_size fp). c \<noteq> [] \<and> length c \<le> chunk_size) \<and>
   (\<forall>i. i + 1 < length (read_chunks chunk_size fp) \<longrightarrow> length (read_chunks chunk_size fp ! i) = chunk_size)"
  using read_chunks_concat [OF chunk_size_pos] read_chunks_bounds read_chunks_full by blast

theorem read_chunks_spec_witness:
  "read_chunks chunk_size [0x3C, 0x61, 0x2F, 0x3E] = [[0x3C, 0x61, 0x2F, 0x3E :: 8 word]] \<and>
   concat (read_chunks chunk_size [0x3C, 0x61, 0x2F, 0x3E]) = [0x3C, 0x61, 0x2F, 0x3E :: 8 word] \<and>
   length [0x3C, 0x61, 0x2F, 0x3E :: 8 word] \<le> chunk_size"
proof -
  have rc: "read_chunks chunk_size [0x3C, 0x61, 0x2F, 0x3E] = [[0x3C, 0x61, 0x2F, 0x3E :: 8 word]]"
    by (rule read_chunks_single) (simp_all add: chunk_size_def)
  from read_chunks_spec [of "[0x3C, 0x61, 0x2F, 0x3E :: 8 word]"] rc show ?thesis by simp
qed

text \<open>
  C11. On a stream without syntax error that does not begin with an end event, the
  extractor raises nothing and yields exactly the elements of the end events whose tag
  is interesting, in document order, each with its tag; with a callback it reports
  each chunk's length, once per chunk and in order.
\<close>

theorem find_all_tags_yields:
  assumes "stream_ok (parser_events feed p0 (read_chunks chunk_size fp))"
  shows "snd (find_all_tags feed p0 fp tags cb) = None \<and>
         yields (fst (find_all_tags feed p0 fp tags cb)) =
           map (\<lambda>e. (el_tag e, e)) (end_matches tags (parser_events feed p0 (read_chunks chunk_size fp))) \<and>
         callbacks (fst (find_all_tags feed p0 fp tags cb)) =
           (if cb then map length (read_chunks chunk_size fp) else [])"
  using find_all_tags_ok_eq [OF assms] by (simp add: yields_gen_reference callbacks_gen_reference)

text \<open>
  A parser collaborator for the witnesses: whatever it is fed, it reports a \<open>HealthData\<close>
  root holding one \<open>Record\<close>.
\<close>

definition demo_record :: element where
  "demo_record = Element ''Record'' [(''type'', PStr ''HKQuantityTypeIdentifierStepCount'')] []"

definition demo_feed :: "unit \<Rightarrow> bytes \<Rightarrow> unit \<times> xml_event list" where
  "demo_feed p c = ((), [EvStart (Element ''HealthData'' [] []), EvEnd demo_record,
                        EvEnd (Element ''HealthData'' [] [demo_record])])"

lemma demo_events: "parser_events demo_feed () (read_chunks chunk_size [0x3C]) =
    [EvStart (Element ''HealthData'' [] []), EvEnd demo_record, EvEnd (Element ''HealthData'' [] [demo_record])]"
proof -
  have "read_chunks chunk_size [0x3C :: 8 word] = [[0x3C]]"
    by (rule read_chunks_single) (simp_all add: chunk_size_def)
  then show ?thesis by (simp add: demo_feed_def)
qed

lemma demo_stream_ok: "stream_ok (parser_events demo_feed () (read_chunks chunk_size [0x3C]))"
  by (simp add: demo_events stream_ok_def starts_with_end_def)

theorem find_all_tags_yields_witness:
  "snd (find_all_tags demo_feed () [0x3C] {''Record''} True) = None \<and>
   yields (fst (find_all_tags demo_feed () [0x3C] {''Record''} True)) = [(''Record'', demo_record)] \<and>
   callbacks (fst (find_all_tags demo_feed () [0x3C] {''Record''} True)) = [1]"
proof -
  have "read_chunks chunk_size [0x3C :: 8 word] = [[0x3C]]"
    by (rule read_chunks_single) (simp_all add: chunk_size_def)
  then show ?thesis
    using find_all_tags_yields [OF demo_stream_ok, of "{''Record''}" True]
    by (simp add: demo_feed_def end_matches_def demo_record_def)
qed

text \<open>
  C12. The progress reports of a run of the extractor add up to the size of the input:
  the callback receives each byte exactly once.
\<close>

theorem find_all_tags_progress_total:
  assumes "stream_ok (parser_events feed p0 (read_chunks chunk_size fp))"
  shows "sum_list (callbacks (fst (find_all_tags feed p0 fp tags True))) = length fp"
  using find_all_tags_ok_eq [OF assms] by (simp add: callbacks_gen_reference sum_callbacks_read_chunks)

theorem find_all_tags_progress_total_witness:
  "sum_list (callbacks (fst (find_all_tags demo_feed () [0x3C] {''Record''} True))) = 1"
  using find_all_tags_progress_total [OF demo_stream_ok, of "{''Record''}"] by simp

text \<open>
  C31. The \<open>while True\<close> read loop of the generator terminates on every input and
  every parser, and produces exactly the items and exception of the recursive model.
\<close>

theorem find_all_loop_eq: "find_all_loop feed p0 fp tags cb = Some (find_all_tags feed p0 fp tags cb)"
  using gen_loop_from [of feed tags cb p0 None fp "[]"] by (simp add: find_all_loop_def find_all_tags_def)

end
