(* ===== verification/Record_Router.thy ===== *)
theory Record_Router
  imports Storage_Interface
begin

text \<open>
  The Record Router, \<open>write_records\<close> (src/healthkit_to_sqlite/utils.py, lines
  102--118). For every buffered record it pops the \<open>type\<close> field (\<open>KeyError\<close> when
  absent), derives the table name \<open>"r" + type\<close> with every occurrence of the two
  HealthKit identifier prefixes removed by \<open>str.replace\<close>, and appends the record to
  that table's group with \<open>setdefault(...).append\<close>; then it issues one
  \<open>insert_all\<close> per table, in the order the tables were first seen. All pops happen
  before the first insert, so a record without \<open>type\<close> aborts the flush with no
  write of that batch.
\<close>

section \<open>\<open>str.replace\<close>\<close>

text \<open>
  \<open>s.replace(old, new)\<close> replaces the non-overlapping occurrences of \<open>old\<close>, scanning
  left to right; with an empty \<open>old\<close> it inserts \<open>new\<close> before every character and
  at the end.
\<close>

function replace_occ :: "string \<Rightarrow> string \<Rightarrow> string \<Rightarrow> string" where
  "replace_occ old new [] = []"
| "replace_occ old new (c # cs) =
     (if old \<noteq> [] \<and> take (length old) (c # cs) = old
      then new @ replace_occ old new (drop (length old) (c # cs))
      else c # replace_occ old new cs)"
  by pat_completeness auto
termination
  by (relation "measure (\<lambda>(old, new, s). length s)") auto

definition py_replace :: "string \<Rightarrow> string \<Rightarrow> string \<Rightarrow> string" where
  "py_replace s old new =
     (if old = [] then concat (map (\<lambda>c. new @ [c]) s) @ new else replace_occ old new s)"

text \<open>Whether \<open>old\<close> occurs in \<open>s\<close> (Python's \<open>old in s\<close>).\<close>

fun has_infix :: "string \<Rightarrow> string \<Rightarrow> bool" where
  "has_infix old [] = (old = [])"
| "has_infix old (c # cs) = (take (length old) (c # cs) = old \<or> has_infix old cs)"

section \<open>Table names and grouping\<close>

definition quantity_prefix :: string where
  "quantity_prefix = ''HKQuantityTypeIdentifier''"

definition category_prefix :: string where
  "category_prefix = ''HKCategoryTypeIdentifier''"

text \<open>\<open>"r{}".format(type.replace(quantity, "").replace(category, ""))\<close>\<close>

definition table_name :: "string \<Rightarrow> string" where
  "table_name ty = ''r'' @ py_replace (py_replace ty quantity_prefix []) category_prefix []"

text \<open>
  \<open>record.pop("type")\<close> followed by the string method \<open>.replace\<close>: a missing key is a
  \<open>KeyError\<close>, a value that is not a string has no \<open>replace\<close>.
\<close>

definition pop_type :: "row \<Rightarrow> error + (string \<times> row)" where
  "pop_type r =
     (case dict_pop r ''type'' of
        None \<Rightarrow> Inl (KeyError ''type'')
      | Some (PStr ty, r') \<Rightarrow> Inr (ty, r')
      | Some (_, r') \<Rightarrow> Inl (AttributeError ''replace''))"

text \<open>The grouping loop \<open>for record in records: ... setdefault(table, []).append(record)\<close>.\<close>

fun group_records :: "(string \<times> row list) list \<Rightarrow> row list \<Rightarrow> error + (string \<times> row list) list" where
  "group_records g [] = Inr g"
| "group_records g (r # rs) =
     (case pop_type r of
        Inl e \<Rightarrow> Inl e
      | Inr (ty, r') \<Rightarrow> group_records (dict_setdefault_append g (table_name ty) r') rs)"

text \<open>The keyword arguments of the records' \<open>insert_all\<close>.\<close>

definition record_opts :: ins_opts where
  "record_opts = default_opts\<lparr>alter := True,
                              column_order := [''startDate'', ''endDate'', ''value'', ''unit''],
                              batch_size := 50\<rparr>"

definition write_records :: "row list \<Rightarrow> log \<Rightarrow> log outcome" where
  "write_records rs l =
     (case group_records [] rs of
        Inl e \<Rightarrow> Inl (e, l)
      | Inr g \<Rightarrow> Inr (l @ map (\<lambda>(t, rows). InsertAll t rows record_opts) g))"

text \<open>A row whose \<open>type\<close> is a string: the rows \<open>write_records\<close> accepts.\<close>

definition typed_row :: "row \<Rightarrow> bool" where
  "typed_row r = (case map_of r ''type'' of Some (PStr ty) \<Rightarrow> True | _ \<Rightarrow> False)"

section \<open>Reference behaviour\<close>

text \<open>
  The abstract grouping: from the records with their \<open>type\<close> popped, one group per
  distinct table name in order of first occurrence, holding that table's records in
  input order.
\<close>

fun pop_all :: "row list \<Rightarrow> error + (string \<times> row) list" where
  "pop_all [] = Inr []"
| "pop_all (r # rs) =
     (case pop_type r of
        Inl e \<Rightarrow> Inl e
      | Inr (ty, r') \<Rightarrow> (case pop_all rs of Inl e \<Rightarrow> Inl e | Inr ps \<Rightarrow> Inr ((table_name ty, r') # ps)))"

definition group_spec :: "(string \<times> row) list \<Rightarrow> (string \<times> row list) list" where
  "group_spec ps = map (\<lambda>t. (t, vals_of t ps)) (dedup (map fst ps))"

section \<open>Lemmas\<close>

lemma group_records_eq:
  "group_records g rs =
     (case pop_all rs of Inl e \<Rightarrow> Inl e | Inr ps \<Rightarrow> Inr (fold (\<lambda>(t, r) g. dict_setdefault_append g t r) ps g))"
  by (induction rs arbitrary: g) (auto split: sum.splits)

lemma group_spec_snoc:
  "group_spec (ps @ [(k, v)]) = dict_setdefault_append (group_spec ps) k v"
proof (cases "k \<in> set (map fst ps)")
  case True
  then show ?thesis
    by (simp add: group_spec_def dedup_snoc setdefault_append_map)
next
  case False
  then have "vals_of k ps = []" by (rule vals_of_notin)
  with False show ?thesis
    by (auto simp: group_spec_def dedup_snoc setdefault_append_map)
qed

lemma fold_group_spec:
  "fold (\<lambda>(t, r) g. dict_setdefault_append g t r) ps [] = group_spec ps"
proof (induction ps rule: rev_induct)
  case Nil
  then show ?case by (simp add: group_spec_def)
next
  case (snoc p ps)
  then show ?case by (cases p) (simp add: group_spec_snoc)
qed

lemma write_records_eq:
  "write_records rs l =
     (case pop_all rs of
        Inl e \<Rightarrow> Inl (e, l)
      | Inr ps \<Rightarrow> Inr (l @ map (\<lambda>(t, rows). InsertAll t rows record_opts) (group_spec ps)))"
  by (simp add: write_records_def group_records_eq fold_group_spec split: sum.splits)

lemma group_spec_distinct: "distinct (map fst (group_spec ps))"
  by (simp add: group_spec_def comp_def)

lemma mset_setdefault_append:
  "mset (concat (map snd (dict_setdefault_append g k v))) = mset (concat (map snd g)) + {#v#}"
  by (induction g k v rule: dict_setdefault_append.induct) auto

lemma group_spec_mset: "mset (concat (map snd (group_spec ps))) = mset (map snd ps)"
proof (induction ps rule: rev_induct)
  case Nil
  then show ?case by (simp add: group_spec_def)
next
  case (snoc p ps)
  then show ?case by (cases p) (simp add: group_spec_snoc mset_setdefault_append)
qed

lemma group_spec_member:
  "(t, rows) \<in> set (group_spec ps) \<Longrightarrow> r \<in> set rows \<Longrightarrow> (t, r) \<in> set ps"
  by (auto simp: group_spec_def vals_of_def)

lemma pop_type_keys:
  "pop_type r = Inr (ty, r') \<Longrightarrow> dict_ok r \<Longrightarrow> dict_ok r' \<and> ''type'' \<notin> set (dict_keys r')"
  by (auto simp: pop_type_def dest: dict_pop_Some_keys split: option.splits pyval.splits)

lemma pop_all_Inr:
  "pop_all rs = Inr ps \<Longrightarrow> (t, r') \<in> set ps \<Longrightarrow> \<exists>r \<in> set rs. \<exists>ty. pop_type r = Inr (ty, r') \<and> t = table_name ty"
  by (induction rs arbitrary: ps) (auto split: sum.splits)

lemma pop_type_missing: "''type'' \<notin> set (dict_keys r) \<Longrightarrow> pop_type r = Inl (KeyError ''type'')"
  by (simp add: pop_type_def dict_pop_None_iff [symmetric])

lemma pop_all_missing:
  "r \<in> set rs \<Longrightarrow> ''type'' \<notin> set (dict_keys r) \<Longrightarrow> \<exists>e. pop_all rs = Inl e"
  by (induction rs) (auto simp: pop_type_missing split: sum.splits)

lemma pop_type_typed:
  assumes "typed_row r"
  shows "\<exists>ty r'. pop_type r = Inr (ty, r')"
proof (cases "dict_pop r ''type''")
  case None
  then have "map_of r ''type'' = None" by (simp add: dict_pop_None_iff dict_keys_def map_of_eq_None_iff)
  with assms show ?thesis by (simp add: typed_row_def)
next
  case (Some p)
  then obtain v r' where p: "dict_pop r ''type'' = Some (v, r')" by (cases p) simp
  with assms show ?thesis
    by (auto simp: typed_row_def pop_type_def dest: dict_pop_Some_lookup split: pyval.splits)
qed

lemma pop_all_typed: "\<forall>r \<in> set rs. typed_row r \<Longrightarrow> \<exists>ps. pop_all rs = Inr ps"
  by (induction rs) (auto dest!: pop_type_typed split: sum.splits)

lemma write_records_typed: "\<forall>r \<in> set rs. typed_row r \<Longrightarrow> \<exists>l'. write_records rs l = Inr l'"
  by (auto simp: write_records_eq dest!: pop_all_typed)

lemma pop_all_same_type:
  "\<forall>r \<in> set rs. ''type'' \<notin> set (dict_keys r) \<Longrightarrow>
   pop_all (map (\<lambda>r. (''type'', PStr ty) # r) rs) = Inr (map (\<lambda>r. (table_name ty, r)) rs)"
  by (induction rs) (auto simp: pop_type_def)

lemma pop_all_length: "pop_all rs = Inr ps \<Longrightarrow> length ps = length rs"
  by (induction rs arbitrary: ps) (auto split: sum.splits)

lemma pop_all_append:
  "pop_all (xs @ ys) =
     (case pop_all xs of Inl e \<Rightarrow> Inl e | Inr ps \<Rightarrow> (case pop_all ys of Inl e \<Rightarrow> Inl e | Inr qs \<Rightarrow> Inr (ps @ qs)))"
  by (induction xs) (auto split: sum.splits prod.splits)

lemma pop_all_concat_ok: "\<forall>g \<in> set G. \<exists>ps. pop_all g = Inr ps \<Longrightarrow> \<exists>ps. pop_all (concat G) = Inr ps"
  by (induction G) (auto simp: pop_all_append)

lemma replace_occ_absent: "\<not> has_infix old s \<Longrightarrow> replace_occ old new s = s"
  by (induction old new s rule: replace_occ.induct) auto

lemma replace_occ_prefix: "old \<noteq> [] \<Longrightarrow> replace_occ old new (old @ s) = new @ replace_occ old new s"
  by (cases old) simp_all

lemma replace_occ_infix:
  assumes "old \<noteq> []" and "\<not> has_infix old (a @ butlast old)"
  shows "replace_occ old new (a @ old @ b) = a @ new @ replace_occ old new b"
  using assms(2)
proof (induction a)
  case Nil
  from replace_occ_prefix [OF assms(1)] show ?case by simp
next
  case (Cons c a)
  have split: "c # a @ old @ b = (c # a @ butlast old) @ (last old # b)"
    using append_butlast_last_id [OF assms(1)] by (metis append.assoc append_Cons append_Cons append_Nil)
  from Cons.prems have no: "take (length old) (c # a @ butlast old) \<noteq> old" and rest: "\<not> has_infix old (a @ butlast old)"
    by simp_all
  have len: "length old \<le> length (c # a @ butlast old)" using assms(1) by (cases old rule: rev_cases) auto
  have "take (length old) ((c # a @ butlast old) @ (last old # b)) = take (length old) (c # a @ butlast old)"
    using len by (simp only: take_append) simp
  with no split have "take (length old) (c # a @ old @ b) \<noteq> old" by metis
  with Cons.IH [OF rest] show ?case by simp
qed

lemma has_infix_cat_quant: "\<not> has_infix quantity_prefix s \<Longrightarrow> \<not> has_infix quantity_prefix (category_prefix @ s)"
  by (simp add: quantity_prefix_def category_prefix_def)


section \<open>Properties of the router\<close>

text \<open>
  C13. A successful flush pops the \<open>type\<close> of every record and then issues exactly one
  \<open>insert_all\<close> per destination table, in order of first occurrence, with the
  records' keyword arguments; the tables are pairwise distinct and together the
  inserts carry every popped record exactly once.
\<close>

theorem write_records_success:
  assumes "write_records rs l = Inr l'"
  shows "\<exists>ps. pop_all rs = Inr ps \<and>
           l' = l @ map (\<lambda>(t, rows). InsertAll t rows record_opts) (group_spec ps) \<and>
           distinct (map fst (group_spec ps)) \<and>
           mset (concat (map snd (group_spec ps))) = mset (map snd ps)"
  using assms group_spec_distinct group_spec_mset
  by (auto simp: write_records_eq split: sum.splits)

theorem write_records_success_witness:
  "write_records [[(''type'', PStr ''HKQuantityTypeIdentifierHeartRate''), (''value'', PStr ''61'')]] [] =
     Inr [InsertAll ''rHeartRate'' [[(''value'', PStr ''61'')]] record_opts] \<and>
   (\<exists>ps. pop_all [[(''type'', PStr ''HKQuantityTypeIdentifierHeartRate''), (''value'', PStr ''61'')]] = Inr ps \<and>
      [InsertAll ''rHeartRate'' [[(''value'', PStr ''61'')]] record_opts] =
        [] @ map (\<lambda>(t, rows). InsertAll t rows record_opts) (group_spec ps) \<and>
      distinct (map fst (group_spec ps)) \<and>
      mset (concat (map snd (group_spec ps))) = mset (map snd ps))"
proof -
  have w: "write_records [[(''type'', PStr ''HKQuantityTypeIdentifierHeartRate''), (''value'', PStr ''61'')]] [] =
     Inr [InsertAll ''rHeartRate'' [[(''value'', PStr ''61'')]] record_opts]"
    by (simp add: write_records_def pop_type_def table_name_def py_replace_def
                  quantity_prefix_def category_prefix_def)
  show ?thesis using w write_records_success [OF w] by simp
qed

text \<open>
  C14. Routing: every row a successful flush writes comes from one of the flushed records
  with its \<open>type\<close> popped, it lands in the table named after that type, and it has no
  \<open>type\<close> column.
\<close>

theorem write_records_routing:
  assumes "\<forall>r \<in> set rs. dict_ok r" and "write_records rs l = Inr l'"
  shows "\<forall>t rows opts r'. InsertAll t rows opts \<in> set (drop (length l) l') \<longrightarrow> r' \<in> set rows \<longrightarrow>
           ''type'' \<notin> set (dict_keys r') \<and>
           (\<exists>r \<in> set rs. \<exists>ty. pop_type r = Inr (ty, r') \<and> t = table_name ty)"
proof (intro allI impI)
  fix t rows opts r'
  assume ins: "InsertAll t rows opts \<in> set (drop (length l) l')" and r': "r' \<in> set rows"
  from assms(2) obtain ps where ps: "pop_all rs = Inr ps"
    and l': "l' = l @ map (\<lambda>(t, rows). InsertAll t rows record_opts) (group_spec ps)"
    by (auto simp: write_records_eq split: sum.splits)
  from ins l' have tr: "(t, rows) \<in> set (group_spec ps)" by auto
  from tr r' have "(t, r') \<in> set ps" by (rule group_spec_member)
  with ps obtain r ty where r: "r \<in> set rs" and pop: "pop_type r = Inr (ty, r')" and t: "t = table_name ty"
    by (blast dest: pop_all_Inr)
  from pop assms(1) r have "''type'' \<notin> set (dict_keys r')" by (blast dest: pop_type_keys)
  with r pop t show "''type'' \<notin> set (dict_keys r') \<and> (\<exists>r \<in> set rs. \<exists>ty. pop_type r = Inr (ty, r') \<and> t = table_name ty)"
    by blast
qed

theorem write_records_routing_witness:
  "write_records [[(''type'', PStr ''HKQuantityTypeIdentifierStepCount''), (''value'', PStr ''12'')]] [] =
     Inr [InsertAll ''rStepCount'' [[(''value'', PStr ''12'')]] record_opts] \<and>
   ''type'' \<notin> set (dict_keys [(''value'', PStr ''12'')]) \<and>
   (\<exists>r \<in> set [[(''type'', PStr ''HKQuantityTypeIdentifierStepCount''), (''value'', PStr ''12'')]].
      \<exists>ty. pop_type r = Inr (ty, [(''value'', PStr ''12'')]) \<and> ''rStepCount'' = table_name ty)"
proof -
  let ?rs = "[[(''type'', PStr ''HKQuantityTypeIdentifierStepCount''), (''value'', PStr ''12'')]]"
  have ok: "\<forall>r \<in> set ?rs. dict_ok r" by (simp add: dict_ok_def dict_keys_def)
  have w: "write_records ?rs [] = Inr [InsertAll ''rStepCount'' [[(''value'', PStr ''12'')]] record_opts]"
    by (simp add: write_records_def pop_type_def table_name_def py_replace_def
                  quantity_prefix_def category_prefix_def)
  have "InsertAll ''rStepCount'' [[(''value'', PStr ''12'')]] record_opts \<in>
          set (drop (length ([] :: log)) [InsertAll ''rStepCount'' [[(''value'', PStr ''12'')]] record_opts])"
    by simp
  with write_records_routing [OF ok w] w show ?thesis by auto
qed

text \<open>
  C15. A record without \<open>type\<close> makes the flush raise before anything of the batch is
  written: the log is returned unchanged with the exception.
\<close>

theorem write_records_missing_type:
  assumes "r \<in> set rs" and "''type'' \<notin> set (dict_keys r)"
  shows "\<exists>e. write_records rs l = Inl (e, l)"
  using pop_all_missing [OF assms] by (auto simp: write_records_eq)

theorem write_records_missing_type_witness:
  "\<exists>e. write_records [[(''type'', PStr ''HKQuantityTypeIdentifierStepCount'')], [(''value'', PStr ''3'')]] [] = Inl (e, [])"
  by (rule write_records_missing_type [of "[(''value'', PStr ''3'')]"]) (simp_all add: dict_keys_def)

text \<open>
  C17. A type made of one of the two identifier prefixes and a name that contains neither
  prefix goes to \<open>r\<close> followed by the name; so do the other prefix and the bare name:
  the three types share one table.
\<close>

theorem table_name_prefixes:
  assumes "\<not> has_infix quantity_prefix s" and "\<not> has_infix category_prefix s"
  shows "table_name (quantity_prefix @ s) = ''r'' @ s \<and> table_name (category_prefix @ s) = ''r'' @ s \<and>
         table_name s = ''r'' @ s"
  using assms has_infix_cat_quant [OF assms(1)]
  by (simp add: table_name_def py_replace_def replace_occ_absent replace_occ_prefix
                quantity_prefix_def [symmetric] category_prefix_def [symmetric])

theorem table_name_prefixes_witness:
  "table_name (quantity_prefix @ ''SleepAnalysis'') = ''rSleepAnalysis'' \<and>
   table_name (category_prefix @ ''SleepAnalysis'') = ''rSleepAnalysis'' \<and>
   table_name ''SleepAnalysis'' = ''rSleepAnalysis''"
  using table_name_prefixes [of "''SleepAnalysis''"] by (simp add: quantity_prefix_def category_prefix_def)

text \<open>
  C18. \<open>str.replace\<close> removes the identifier text wherever it occurs in the type, not
  only as a prefix: a type with \<open>HKQuantityTypeIdentifier\<close> after any text \<open>a\<close> and
  before any text \<open>b\<close> goes to table \<open>r\<close> followed by \<open>a @ b\<close>, provided no other
  occurrence of an identifier text overlaps it or is created by the removal.
\<close>

theorem table_name_strips_inside:
  assumes "\<not> has_infix quantity_prefix (a @ butlast quantity_prefix)" and "\<not> has_infix quantity_prefix b"
    and "\<not> has_infix category_prefix (a @ b)"
  shows "table_name (a @ quantity_prefix @ b) = ''r'' @ a @ b"
proof -
  have "quantity_prefix \<noteq> []" by (simp add: quantity_prefix_def)
  from replace_occ_infix [OF this assms(1)] assms(2,3) show ?thesis
    by (simp add: table_name_def py_replace_def replace_occ_absent category_prefix_def [symmetric]
                  quantity_prefix_def [symmetric])
qed

theorem table_name_strips_inside_witness:
  "table_name (''My'' @ quantity_prefix @ ''X'') = ''rMyX''"
proof -
  have h: "\<not> has_infix quantity_prefix (''My'' @ butlast quantity_prefix)" "\<not> has_infix quantity_prefix ''X''"
          "\<not> has_infix category_prefix (''My'' @ ''X'')"
    by (simp_all add: quantity_prefix_def category_prefix_def)
  from table_name_strips_inside [OF h] show ?thesis by simp
qed

text \<open>
  C28. A batch of records that all have the same type, given first as in an export,
  is written by one \<open>insert_all\<close> to that type's table, of the records without their
  type, in order.
\<close>

theorem write_records_same_type:
  assumes "rs \<noteq> []" and "\<forall>r \<in> set rs. ''type'' \<notin> set (dict_keys r)"
  shows "write_records (map (\<lambda>r. (''type'', PStr ty) # r) rs) l = Inr (l @ [InsertAll (table_name ty) rs record_opts])"
proof -
  have "group_spec (map (\<lambda>r. (table_name ty, r)) rs) = [(table_name ty, rs)]"
    using assms(1) by (cases rs) (auto simp: group_spec_def dedup_def vals_of_def dedup_from_const comp_def)
  with pop_all_same_type [OF assms(2)] show ?thesis by (simp add: write_records_eq)
qed

theorem write_records_same_type_witness:
  "write_records [[(''type'', PStr ''HKQuantityTypeIdentifierHeartRate''), (''value'', PStr ''61'')],
                  [(''type'', PStr ''HKQuantityTypeIdentifierHeartRate''), (''value'', PStr ''62'')]] [] =
     Inr [InsertAll ''rHeartRate'' [[(''value'', PStr ''61'')], [(''value'', PStr ''62'')]] record_opts]"
  using write_records_same_type [of "[[(''value'', PStr ''61'')], [(''value'', PStr ''62'')]]"
                                    "''HKQuantityTypeIdentifierHeartRate''" "[]"]
  by (simp add: dict_keys_def table_name_def py_replace_def quantity_prefix_def category_prefix_def)

end
