(* ===== verification/Side_Files.thy ===== *)
theory Side_Files
  imports Storage_Interface
begin

text \<open>
  The Archive/File Resolver and the Track Parser Adapter: \<open>open_file_or_zip\<close> and
  \<open>parse_gpx\<close> (src/healthkit_to_sqlite/utils.py, lines 89--99), and the path
  computation of \<open>workout_to_db\<close> (line 75) that turns a \<open>FileReference\<close>'s
  \<open>path\<close> into the name handed to the resolver. The archive, the file system and
  gpxpy are collaborators given by a record of functions: the archive maps member names
  to their text, the file system maps paths to their text, and the track parser maps a
  document to the \<open>vars()\<close> dicts of its track points or fails. Byte-to-text decoding
  is the collaborators' part; the universal-newline translation of
  \<open>io.TextIOWrapper(newline=None)\<close> and the skipped header line are modelled.
\<close>

record side_env =
  zip_archive :: "(string \<Rightarrow> string option) option"
  local_files :: "string \<Rightarrow> string option"
  gpx_walk :: "string \<Rightarrow> row list option"

section \<open>Paths\<close>

text \<open>\<open>s.split(sep)\<close> for a one-character separator: always at least one part.\<close>

fun split_char :: "char \<Rightarrow> string \<Rightarrow> string list" where
  "split_char c [] = [[]]"
| "split_char c (x # xs) =
     (if x = c then [] # split_char c xs
      else (case split_char c xs of w # ws \<Rightarrow> (x # w) # ws | [] \<Rightarrow> [[x]]))"

text \<open>\<open>posixpath.join(a, *p)\<close>.\<close>

fun path_join :: "string \<Rightarrow> string list \<Rightarrow> string" where
  "path_join a [] = a"
| "path_join a (b # bs) =
     path_join (if take 1 b = ''/'' then b
                else if a = [] \<or> last a = CHR ''/'' then a @ b
                else a @ ''/'' @ b) bs"

definition export_root :: string where
  "export_root = ''apple_health_export''"

text \<open>\<open>os.path.join("apple_health_export", *(item.get("path").split("/")))\<close>\<close>

definition resolve_gpx_path :: "string \<Rightarrow> string" where
  "resolve_gpx_path p = path_join export_root (split_char CHR ''/'' p)"

section \<open>Opening and parsing a side-car file\<close>

text \<open>
  \<open>zf.open(file)\<close> raises \<open>KeyError\<close> for a member the archive lacks;
  \<open>builtins.open(file, 'rb')\<close> raises \<open>FileNotFoundError\<close>.
\<close>

definition open_file_or_zip :: "side_env \<Rightarrow> string \<Rightarrow> error + string" where
  "open_file_or_zip env file =
     (case zip_archive env of
        Some zf \<Rightarrow> (case zf file of None \<Rightarrow> Inl (KeyError file) | Some t \<Rightarrow> Inr t)
      | None \<Rightarrow> (case local_files env file of None \<Rightarrow> Inl (FileNotFoundError file) | Some t \<Rightarrow> Inr t))"

abbreviation CR :: char where "CR \<equiv> CHR 0x0D"
abbreviation LF :: char where "LF \<equiv> CHR 0x0A"

text \<open>Universal newlines: \<open>\r\n\<close> and a lone \<open>\r\<close> are read as \<open>\n\<close>.\<close>

fun translate_newlines :: "string \<Rightarrow> string" where
  "translate_newlines [] = []"
| "translate_newlines [c] = (if c = CR then [LF] else [c])"
| "translate_newlines (c # d # s) =
     (if c = CR \<and> d = LF then LF # translate_newlines s
      else (if c = CR then LF else c) # translate_newlines (d # s))"

text \<open>\<open>doc.readline()\<close> then \<open>"".join(doc.readlines())\<close>: the text after the first line.\<close>

definition after_first_line :: "string \<Rightarrow> string" where
  "after_first_line s = drop (Suc (length (takeWhile (\<lambda>c. c \<noteq> LF) s))) s"

definition parse_gpx :: "side_env \<Rightarrow> string \<Rightarrow> error + row list" where
  "parse_gpx env content =
     (case gpx_walk env (after_first_line (translate_newlines content)) of
        None \<Rightarrow> Inl (GpxError ''parse'')
      | Some pts \<Rightarrow> Inr pts)"

section \<open>Lemmas\<close>

lemma split_char_nonempty [simp]: "split_char c s \<noteq> []"
  by (induction c s rule: split_char.induct) (auto split: list.splits)

lemma split_char_no_sep: "c \<notin> set ys \<Longrightarrow> split_char c ys = [ys]"
  by (induction ys) auto

lemma split_char_sep_append:
  "split_char c (xs @ c # ys) = split_char c xs @ split_char c ys"
  by (induction xs) (auto split: list.splits)

abbreviation nonempty_parts :: "string list \<Rightarrow> string list" where
  "nonempty_parts ps \<equiv> filter (\<lambda>w. w \<noteq> []) ps"

lemma split_char_append_plain:
  assumes "c \<notin> set b" and "p \<noteq> []" and "last p = c"
  shows "nonempty_parts (split_char c (p @ b)) = nonempty_parts (split_char c p) @ nonempty_parts [b]"
proof -
  from assms(2,3) obtain p' where p: "p = p' @ [c]"
    by (metis append_butlast_last_id)
  have "split_char c (p' @ c # b) = split_char c p' @ [b]"
    using assms(1) by (simp add: split_char_sep_append split_char_no_sep)
  moreover have "split_char c (p' @ [c]) = split_char c p' @ [[]]"
    using split_char_sep_append [of c p' "[]"] by simp
  ultimately show ?thesis using p by simp
qed

lemma split_char_append_sep:
  assumes "c \<notin> set b"
  shows "nonempty_parts (split_char c (p @ c # b)) = nonempty_parts (split_char c p) @ nonempty_parts [b]"
  using assms by (simp add: split_char_sep_append split_char_no_sep)

lemma path_join_parts:
  assumes "\<forall>b \<in> set bs. CHR ''/'' \<notin> set b" and "a \<noteq> []"
  shows "nonempty_parts (split_char CHR ''/'' (path_join a bs)) =
         nonempty_parts (split_char CHR ''/'' a) @ nonempty_parts bs"
  using assms
proof (induction bs arbitrary: a)
  case Nil
  then show ?case by simp
next
  case (Cons b bs)
  from Cons.prems have b: "CHR ''/'' \<notin> set b" and bs: "\<forall>b \<in> set bs. CHR ''/'' \<notin> set b" by auto
  have nsl: "take 1 b \<noteq> ''/''"
    using b by (cases b) auto
  show ?case
  proof (cases "last a = CHR ''/''")
    case True
    with Cons.prems(2) nsl have "path_join a (b # bs) = path_join (a @ b) bs" by simp
    moreover have "nonempty_parts (split_char CHR ''/'' (a @ b)) =
                   nonempty_parts (split_char CHR ''/'' a) @ nonempty_parts [b]"
      using b Cons.prems(2) True by (rule split_char_append_plain)
    moreover have "a @ b \<noteq> []" using Cons.prems(2) by simp
    ultimately show ?thesis using Cons.IH [OF bs] by simp
  next
    case False
    with Cons.prems(2) nsl have "path_join a (b # bs) = path_join (a @ CHR ''/'' # b) bs" by simp
    moreover have "nonempty_parts (split_char CHR ''/'' (a @ CHR ''/'' # b)) =
                   nonempty_parts (split_char CHR ''/'' a) @ nonempty_parts [b]"
      using b by (rule split_char_append_sep)
    ultimately show ?thesis using Cons.IH [OF bs] by simp
  qed
qed

lemma split_char_parts_no_sep: "w \<in> set (split_char c s) \<Longrightarrow> c \<notin> set w"
  by (induction c s arbitrary: w rule: split_char.induct) (auto split: list.splits if_splits)

lemma resolve_gpx_path_parts:
  "nonempty_parts (split_char CHR ''/'' (resolve_gpx_path p)) =
   export_root # nonempty_parts (split_char CHR ''/'' p)"
proof -
  have "nonempty_parts (split_char CHR ''/'' export_root) = [export_root]"
    by (simp add: export_root_def)
  moreover have "\<forall>b \<in> set (split_char CHR ''/'' p). CHR ''/'' \<notin> set b"
    by (blast dest: split_char_parts_no_sep)
  ultimately show ?thesis
    by (simp add: resolve_gpx_path_def path_join_parts export_root_def)
qed

lemma path_join_extends:
  "\<forall>b \<in> set bs. take 1 b \<noteq> ''/'' \<Longrightarrow> \<exists>s. path_join a bs = a @ s"
proof (induction bs arbitrary: a)
  case Nil
  then show ?case by simp
next
  case (Cons b bs)
  then obtain s where "path_join (if a = [] \<or> last a = CHR ''/'' then a @ b else a @ ''/'' @ b) bs =
      (if a = [] \<or> last a = CHR ''/'' then a @ b else a @ ''/'' @ b) @ s"
    by auto
  with Cons.prems show ?case by (auto split: if_splits)
qed

lemma split_char_parts_no_lead: "w \<in> set (split_char CHR ''/'' s) \<Longrightarrow> take 1 w \<noteq> ''/''"
  using split_char_parts_no_sep [of w "CHR ''/''" s] by (cases w) auto

lemma resolve_gpx_path_prefix: "\<exists>s. resolve_gpx_path p = ''apple_health_export/'' @ s"
proof -
  obtain w ws where sp: "split_char CHR ''/'' p = w # ws"
    by (cases "split_char CHR ''/'' p") auto
  have lead: "\<forall>b \<in> set ws. take 1 b \<noteq> ''/''" and w: "take 1 w \<noteq> ''/''"
    using split_char_parts_no_lead [of _ p] sp by auto
  from lead obtain s where "path_join (export_root @ ''/'' @ w) ws = (export_root @ ''/'' @ w) @ s"
    using path_join_extends by blast
  with w sp show ?thesis by (auto simp: resolve_gpx_path_def export_root_def)
qed

lemma translate_newlines_Cons: "c \<noteq> CR \<Longrightarrow> translate_newlines (c # s) = c # translate_newlines s"
  by (cases s) auto

lemma translate_newlines_plain: "CR \<notin> set h \<Longrightarrow> translate_newlines (h @ s) = h @ translate_newlines s"
  by (induction h) (auto simp: translate_newlines_Cons)

lemma after_first_line_split:
  assumes "LF \<notin> set h"
  shows "after_first_line (h @ LF # r) = r"
proof -
  from assms have "takeWhile (\<lambda>c. c \<noteq> LF) (h @ LF # r) = h"
    by (subst takeWhile_append2) auto
  then show ?thesis by (simp add: after_first_line_def)
qed

lemma after_first_line_single:
  assumes "LF \<notin> set s"
  shows "after_first_line s = []"
proof -
  from assms have tw: "takeWhile (\<lambda>c. c \<noteq> LF) s = s"
    by (auto simp: takeWhile_eq_all_conv)
  show ?thesis unfolding after_first_line_def tw by simp
qed


section \<open>Properties of path resolution and of the track adapter\<close>

text \<open>
  C23. Every side-car path handed to the resolver lies under \<open>apple_health_export/\<close>,
  and its non-empty \<open>/\<close>-separated parts are \<open>apple_health_export\<close> followed by the
  non-empty parts of the \<open>FileReference\<close>'s path, in order. Nothing is normalised:
  a \<open>..\<close> part of the reference reaches the resolver as it is.
\<close>

theorem resolve_gpx_path_under_root:
  "(\<exists>s. resolve_gpx_path p = ''apple_health_export/'' @ s) \<and>
   filter (\<lambda>w. w \<noteq> []) (split_char CHR ''/'' (resolve_gpx_path p)) =
     ''apple_health_export'' # filter (\<lambda>w. w \<noteq> []) (split_char CHR ''/'' p)"
  using resolve_gpx_path_prefix resolve_gpx_path_parts by (simp add: export_root_def)

text \<open>
  C25. The adapter drops exactly the first line, ended by \<open>\n\<close> or \<open>\r\n\<close>, and
  hands the track parser the rest of the document with universal newlines.
\<close>

theorem parse_gpx_skips_header:
  assumes "LF \<notin> set h" and "CR \<notin> set h"
  shows "parse_gpx env (h @ CR # LF # body) = parse_gpx env (h @ LF # body) \<and>
         parse_gpx env (h @ LF # body) =
           (case gpx_walk env (translate_newlines body) of None \<Rightarrow> Inl (GpxError ''parse'') | Some pts \<Rightarrow> Inr pts)"
  using assms
  by (simp add: parse_gpx_def translate_newlines_plain after_first_line_split translate_newlines_Cons)

theorem parse_gpx_skips_header_witness:
  "parse_gpx \<lparr>zip_archive = None, local_files = (\<lambda>_. None), gpx_walk = (\<lambda>t. Some [[(''doc'', PStr t)]])\<rparr>
      (''<?xml?>'' @ CR # LF # ''<gpx/>'') =
   parse_gpx \<lparr>zip_archive = None, local_files = (\<lambda>_. None), gpx_walk = (\<lambda>t. Some [[(''doc'', PStr t)]])\<rparr>
      (''<?xml?>'' @ LF # ''<gpx/>'') \<and>
   parse_gpx \<lparr>zip_archive = None, local_files = (\<lambda>_. None), gpx_walk = (\<lambda>t. Some [[(''doc'', PStr t)]])\<rparr>
      (''<?xml?>'' @ LF # ''<gpx/>'') = Inr [[(''doc'', PStr ''<gpx/>'')]]"
proof -
  have h: "LF \<notin> set ''<?xml?>''" "CR \<notin> set ''<?xml?>''" by simp_all
  show ?thesis
    using parse_gpx_skips_header [OF h, of
        "\<lparr>zip_archive = None, local_files = (\<lambda>_. None), gpx_walk = (\<lambda>t. Some [[(''doc'', PStr t)]])\<rparr>"
        "''<gpx/>''"]
    by simp
qed

text \<open>
  C26. A side-car document written on one line (no separate header line) is dropped
  whole: the track parser receives the empty text.
\<close>

theorem parse_gpx_one_line:
  assumes "LF \<notin> set s" and "CR \<notin> set s"
  shows "parse_gpx env s = (case gpx_walk env [] of None \<Rightarrow> Inl (GpxError ''parse'') | Some pts \<Rightarrow> Inr pts)"
  using assms translate_newlines_plain [of s "[]"]
  by (simp add: parse_gpx_def after_first_line_single)

theorem parse_gpx_one_line_witness:
  "parse_gpx \<lparr>zip_archive = None, local_files = (\<lambda>_. None),
              gpx_walk = (\<lambda>t. if t = [] then None else Some [])\<rparr> ''<gpx><trk/></gpx>'' =
   Inl (GpxError ''parse'')"
proof -
  have h: "LF \<notin> set ''<gpx><trk/></gpx>''" "CR \<notin> set ''<gpx><trk/></gpx>''" by simp_all
  show ?thesis
    using parse_gpx_one_line [OF h, of "\<lparr>zip_archive = None, local_files = (\<lambda>_. None),
              gpx_walk = (\<lambda>t. if t = [] then None else Some [])\<rparr>"]
    by simp
qed

end
