(* ===== verification/Workout_Assembler.thy ===== *)
theory Workout_Assembler
  imports Xml_Elements Side_Files
begin

text \<open>
  The Workout Assembler, \<open>workout_to_db\<close> (src/healthkit_to_sqlite/utils.py, lines
  61--86), and the metadata flattening it shares with the record branch of the
  orchestrator (lines 46--47 and 64--65). The workout row is the element's attributes,
  one \<open>metadata_<key>\<close> field per \<open>MetadataEntry\<close> child and the list of the
  \<open>WorkoutEvent\<close> children's attribute dicts; it is inserted at once with a content
  hash as primary key (\<open>hash_id="id"\<close>), the hash being the storage collaborator's
  function \<open>h\<close>. Its points are the embedded \<open>WorkoutRoute/Location\<close> children or,
  when there are none, the track points of the side-car files the
  \<open>WorkoutRoute/FileReference\<close> children name, each tagged with the workout's key
  and inserted by one \<open>insert_all\<close> if there is any.
\<close>

section \<open>Metadata\<close>

text \<open>
  \<open>record["metadata_" + child.attrib["key"]] = child.attrib["value"]\<close>: Python
  evaluates the right-hand side first, so a child without \<open>value\<close> raises
  \<open>KeyError('value')\<close> even when it also lacks \<open>key\<close>.
\<close>

fun add_metadata :: "row \<Rightarrow> element list \<Rightarrow> error + row" where
  "add_metadata r [] = Inr r"
| "add_metadata r (c # cs) =
     (case attrib_item c ''value'' of
        Inl e \<Rightarrow> Inl e
      | Inr v \<Rightarrow>
          (case attrib_item c ''key'' of
             Inl e \<Rightarrow> Inl e
           | Inr (PStr k) \<Rightarrow> add_metadata (dict_set r (''metadata_'' @ k) v) cs
           | Inr _ \<Rightarrow> Inl (TypeError ''concat'')))"

text \<open>The \<open>MetadataEntry\<close> children whose \<open>key\<close> is \<open>k\<close>, in order.\<close>

definition metadata_for :: "string \<Rightarrow> element list \<Rightarrow> element list" where
  "metadata_for k cs = filter (\<lambda>c. map_of (el_attrib c) ''key'' = Some (PStr k)) cs"

section \<open>The workout row and its points\<close>

definition workout_opts :: ins_opts where
  "workout_opts = default_opts\<lparr>alter := True, hash_id := Some ''id''\<rparr>"

definition points_opts :: ins_opts where
  "points_opts = default_opts\<lparr>foreign_keys := [(''workout_id'', ''workouts'')], batch_size := 50\<rparr>"

text \<open>\<open>dict(d, workout_id=pk)\<close>\<close>

definition tag_point :: "string \<Rightarrow> row \<Rightarrow> row" where
  "tag_point pk d = dict_set d ''workout_id'' (PStr pk)"

text \<open>
  The list comprehension of line 75: \<open>item.get("path").split("/")\<close> raises
  \<open>AttributeError\<close> when the attribute is missing (\<open>None\<close>) or not a string; the
  whole list is built before the first file is opened.
\<close>

fun gpx_paths :: "element list \<Rightarrow> error + string list" where
  "gpx_paths [] = Inr []"
| "gpx_paths (item # items) =
     (case el_get item ''path'' of
        Some (PStr p) \<Rightarrow>
          (case gpx_paths items of Inl e \<Rightarrow> Inl e | Inr ps \<Rightarrow> Inr (resolve_gpx_path p # ps))
      | _ \<Rightarrow> Inl (AttributeError ''split''))"

text \<open>
  The loop of lines 78--82: open each file (the resolver call is logged before it can
  fail), parse it, and append its points tagged with the workout's key.
\<close>

fun load_gpx_points ::
  "side_env \<Rightarrow> string \<Rightarrow> string list \<Rightarrow> row list \<Rightarrow> log \<Rightarrow> (error \<times> log) + (row list \<times> log)"
where
  "load_gpx_points env pk [] pts l = Inr (pts, l)"
| "load_gpx_points env pk (path # paths) pts l =
     (case open_file_or_zip env path of
        Inl e \<Rightarrow> Inl (e, l @ [OpenFile path])
      | Inr txt \<Rightarrow>
          (case parse_gpx env txt of
             Inl e \<Rightarrow> Inl (e, l @ [OpenFile path])
           | Inr gpts \<Rightarrow> load_gpx_points env pk paths (pts @ map (tag_point pk) gpts) (l @ [OpenFile path])))"

text \<open>Lines 62--67: the row inserted for the workout.\<close>

definition workout_record :: "element \<Rightarrow> error + row" where
  "workout_record w =
     (case add_metadata (el_attrib w) (findall w [''MetadataEntry'']) of
        Inl e \<Rightarrow> Inl e
      | Inr r \<Rightarrow> Inr (dict_set r ''workout_events''
                       (PList (map (\<lambda>ev. PDict (el_attrib ev)) (findall w [''WorkoutEvent''])))))"

definition insert_points :: "row list \<Rightarrow> log \<Rightarrow> log" where
  "insert_points pts l = (if pts = [] then l else l @ [InsertAll ''workout_points'' pts points_opts])"

definition workout_to_db :: "side_env \<Rightarrow> (row \<Rightarrow> string) \<Rightarrow> element \<Rightarrow> log \<Rightarrow> log outcome" where
  "workout_to_db env h w l =
     (case workout_record w of
        Inl e \<Rightarrow> Inl (e, l)
      | Inr r \<Rightarrow>
          (let pk = h r;
               l1 = l @ [Insert ''workouts'' r workout_opts];
               pts = map (\<lambda>loc. tag_point pk (el_attrib loc)) (findall w [''WorkoutRoute'', ''Location''])
           in if pts \<noteq> [] then Inr (insert_points pts l1)
              else (case gpx_paths (findall w [''WorkoutRoute'', ''FileReference'']) of
                      Inl e \<Rightarrow> Inl (e, l1)
                    | Inr paths \<Rightarrow>
                        (case load_gpx_points env pk paths pts l1 of
                           Inl err \<Rightarrow> Inl err
                         | Inr (pts', l2) \<Rightarrow> Inr (insert_points pts' l2)))))"

text \<open>A workout with side-car references, used to exercise the loop of lines 76--82.\<close>

definition demo_ref :: "string \<Rightarrow> element" where
  "demo_ref p = Element ''FileReference'' [(''path'', PStr p)] []"

definition demo_files_env :: side_env where
  "demo_files_env = \<lparr>zip_archive = None,
     local_files = (\<lambda>f. if f = ''apple_health_export/a.gpx'' then Some (''h'' @ LF # ''A'')
                        else if f = ''apple_health_export/b.gpx'' then Some (''h'' @ LF # ''B'') else None),
     gpx_walk = (\<lambda>t. Some [[(''doc'', PStr t)]])\<rparr>"

section \<open>Lemmas\<close>

lemma add_metadata_other_keys:
  "add_metadata r cs = Inr r' \<Longrightarrow> take 9 k \<noteq> ''metadata_'' \<Longrightarrow> map_of r' k = map_of r k"
proof (induction r cs rule: add_metadata.induct)
  case (1 r)
  then show ?case by simp
next
  case (2 r c cs)
  then show ?case
    by (auto simp: attrib_item_def split: option.splits pyval.splits if_splits)
qed

lemma add_metadata_dict_ok: "add_metadata r cs = Inr r' \<Longrightarrow> dict_ok r \<Longrightarrow> dict_ok r'"
  by (induction r cs rule: add_metadata.induct) (auto split: sum.splits pyval.splits)

lemma add_metadata_missing_value:
  "c \<in> set cs \<Longrightarrow> ''value'' \<notin> set (dict_keys (el_attrib c)) \<Longrightarrow> \<exists>e. add_metadata r cs = Inl e"
proof (induction r cs rule: add_metadata.induct)
  case (1 r)
  then show ?case by simp
next
  case (2 r c' cs)
  show ?case
  proof (cases "c' = c")
    case True
    with "2.prems"(2) have "map_of (el_attrib c') ''value'' = None"
      by (simp add: dict_keys_def map_of_eq_None_iff)
    then show ?thesis by (simp add: attrib_item_def)
  next
    case False
    with "2.prems" "2.IH" show ?thesis by (auto split: sum.splits pyval.splits)
  qed
qed

lemma tag_point_key [simp]: "map_of (tag_point pk d) ''workout_id'' = Some (PStr pk)"
  by (simp add: tag_point_def)

lemma load_gpx_points_Inr:
  "load_gpx_points env pk paths pts l = Inr (pts', l') \<Longrightarrow>
   l' = l @ map OpenFile paths \<and> (\<forall>p \<in> set pts'. p \<in> set pts \<or> map_of p ''workout_id'' = Some (PStr pk))"
proof (induction env pk paths pts l rule: load_gpx_points.induct)
  case (1 env pk pts l)
  then show ?case by simp
next
  case (2 env pk path paths pts l)
  then show ?case by (fastforce split: sum.splits)
qed

lemma load_gpx_points_Inl:
  "load_gpx_points env pk paths pts l = Inl (e, l') \<Longrightarrow> \<exists>ps. l' = l @ map OpenFile ps"
proof (induction env pk paths pts l rule: load_gpx_points.induct)
  case (1 env pk pts l)
  then show ?case by simp
next
  case (2 env pk path paths pts l)
  show ?case
  proof (cases "open_file_or_zip env path")
    case (Inl e')
    with "2.prems" have "l' = l @ map OpenFile [path]" by simp
    then show ?thesis ..
  next
    case (Inr doc)
    show ?thesis
    proof (cases "parse_gpx env doc")
      case (Inl e')
      with Inr "2.prems" have "l' = l @ map OpenFile [path]" by simp
      then show ?thesis ..
    next
      case (Inr gpts)
      with \<open>open_file_or_zip env path = Inr doc\<close> "2.prems"
      have "load_gpx_points env pk paths (pts @ map (tag_point pk) gpts) (l @ [OpenFile path]) = Inl (e, l')"
        by simp
      with \<open>open_file_or_zip env path = Inr doc\<close> Inr obtain ps where "l' = (l @ [OpenFile path]) @ map OpenFile ps"
        using "2.IH" by blast
      then have "l' = l @ map OpenFile (path # ps)" by simp
      then show ?thesis ..
    qed
  qed
qed

lemma gpx_paths_strs:
  "map (\<lambda>it. el_get it ''path'') items = map (\<lambda>p. Some (PStr p)) ps \<Longrightarrow>
   gpx_paths items = Inr (map resolve_gpx_path ps)"
proof (induction items arbitrary: ps)
  case Nil
  then show ?case by simp
next
  case (Cons it items)
  then obtain p ps' where "ps = p # ps'" by (cases ps) auto
  with Cons show ?case by simp
qed

lemma load_gpx_points_all:
  assumes "list_all2 (\<lambda>path g. \<exists>doc. open_file_or_zip env path = Inr doc \<and> parse_gpx env doc = Inr g) paths G"
  shows "load_gpx_points env pk paths pts l = Inr (pts @ map (tag_point pk) (concat G), l @ map OpenFile paths)"
  using assms
proof (induction arbitrary: pts l rule: list_all2_induct)
  case Nil
  then show ?case by simp
next
  case (Cons path paths g G)
  then obtain doc where "open_file_or_zip env path = Inr doc" "parse_gpx env doc = Inr g" by blast
  with Cons.IH show ?case by simp
qed

lemma workout_to_db_embedded_eq:
  assumes "workout_record w = Inr r"
    and "map (\<lambda>loc. tag_point (h r) (el_attrib loc)) (findall w [''WorkoutRoute'', ''Location'']) \<noteq> []"
  shows "workout_to_db env h w l =
           Inr (insert_points (map (\<lambda>loc. tag_point (h r) (el_attrib loc)) (findall w [''WorkoutRoute'', ''Location'']))
                 (l @ [Insert ''workouts'' r workout_opts]))"
  using assms by (simp add: workout_to_db_def Let_def)

lemma workout_to_db_sidecar_eq:
  assumes "workout_record w = Inr r" and "findall w [''WorkoutRoute'', ''Location''] = []"
  shows "workout_to_db env h w l =
           (case gpx_paths (findall w [''WorkoutRoute'', ''FileReference'']) of
              Inl e \<Rightarrow> Inl (e, l @ [Insert ''workouts'' r workout_opts])
            | Inr paths \<Rightarrow>
                (case load_gpx_points env (h r) paths [] (l @ [Insert ''workouts'' r workout_opts]) of
                   Inl err \<Rightarrow> Inl err
                 | Inr (pts', l2) \<Rightarrow> Inr (insert_points pts' l2)))"
  using assms by (simp add: workout_to_db_def Let_def)

lemma workout_to_db_Inr:
  assumes "workout_to_db env h w l = Inr l'"
  shows "\<exists>r opens pts. workout_record w = Inr r \<and>
           l' = insert_points pts (l @ [Insert ''workouts'' r workout_opts] @ map OpenFile opens) \<and>
           (\<forall>p \<in> set pts. map_of p ''workout_id'' = Some (PStr (h r)))"
proof -
  from assms obtain r where r: "workout_record w = Inr r"
    by (auto simp: workout_to_db_def split: sum.splits)
  let ?locs = "findall w [''WorkoutRoute'', ''Location'']"
  let ?pts = "map (\<lambda>loc. tag_point (h r) (el_attrib loc)) ?locs"
  show ?thesis
  proof (cases "?locs = []")
    case False
    then have "?pts \<noteq> []" by simp
    with assms r have "l' = insert_points ?pts (l @ [Insert ''workouts'' r workout_opts] @ map OpenFile [])"
      by (simp add: workout_to_db_embedded_eq)
    moreover have "\<forall>p \<in> set ?pts. map_of p ''workout_id'' = Some (PStr (h r))" by auto
    ultimately show ?thesis using r by blast
  next
    case True
    with assms r obtain paths pts' l2 where
      lp: "load_gpx_points env (h r) paths [] (l @ [Insert ''workouts'' r workout_opts]) = Inr (pts', l2)"
      and l': "l' = insert_points pts' l2"
      by (auto simp: workout_to_db_sidecar_eq split: sum.splits)
    from load_gpx_points_Inr [OF lp]
    have "l2 = l @ [Insert ''workouts'' r workout_opts] @ map OpenFile paths"
      and "\<forall>p \<in> set pts'. map_of p ''workout_id'' = Some (PStr (h r))" by auto
    with r l' show ?thesis by blast
  qed
qed

lemma workout_to_db_Inl:
  assumes "workout_to_db env h w l = Inl (e, l')"
  shows "l' = l \<or> (\<exists>r opens. workout_record w = Inr r \<and> l' = l @ [Insert ''workouts'' r workout_opts] @ map OpenFile opens)"
proof (cases "workout_record w")
  case (Inl e')
  with assms show ?thesis by (simp add: workout_to_db_def)
next
  case (Inr r)
  let ?locs = "findall w [''WorkoutRoute'', ''Location'']"
  have "?locs = []"
  proof (rule ccontr)
    assume "?locs \<noteq> []"
    with assms Inr show False by (simp add: workout_to_db_embedded_eq)
  qed
  with assms Inr have
    "(case gpx_paths (findall w [''WorkoutRoute'', ''FileReference'']) of
        Inl e \<Rightarrow> Inl (e, l @ [Insert ''workouts'' r workout_opts])
      | Inr paths \<Rightarrow>
          (case load_gpx_points env (h r) paths [] (l @ [Insert ''workouts'' r workout_opts]) of
             Inl err \<Rightarrow> Inl err
           | Inr (pts', l2) \<Rightarrow> Inr (insert_points pts' l2))) = Inl (e, l')"
    by (simp add: workout_to_db_sidecar_eq)
  then consider "l' = l @ [Insert ''workouts'' r workout_opts]"
    | paths where "load_gpx_points env (h r) paths [] (l @ [Insert ''workouts'' r workout_opts]) = Inl (e, l')"
    by (auto split: sum.splits)
  then show ?thesis
  proof cases
    case 1
    then have "l' = l @ [Insert ''workouts'' r workout_opts] @ map OpenFile []" by simp
    with Inr show ?thesis by blast
  next
    case 2
    then obtain ps where "l' = (l @ [Insert ''workouts'' r workout_opts]) @ map OpenFile ps"
      by (blast dest: load_gpx_points_Inl)
    with Inr show ?thesis by auto
  qed
qed


section \<open>Properties of the assembler\<close>

text \<open>
  C19. A workout with embedded \<open>Location\<close> children is written as its row followed by
  one \<open>insert_all\<close> of one point per location, each tagged with the row's key; no
  side-car file is opened.
\<close>

theorem workout_to_db_embedded:
  assumes "workout_record w = Inr r"
    and "findall w [''WorkoutRoute'', ''Location''] = locs" and "locs \<noteq> []"
  shows "workout_to_db env h w l =
           Inr (l @ [Insert ''workouts'' r workout_opts,
                     InsertAll ''workout_points'' (map (\<lambda>loc. tag_point (h r) (el_attrib loc)) locs) points_opts])"
  using assms by (simp add: workout_to_db_def Let_def insert_points_def)

theorem workout_to_db_embedded_witness:
  "workout_to_db \<lparr>zip_archive = None, local_files = (\<lambda>_. None), gpx_walk = (\<lambda>_. None)\<rparr> (\<lambda>_. ''k1'')
     (Element ''Workout'' [(''seq'', PInt 1)]
        [Element ''WorkoutRoute'' []
           [Element ''Location'' [(''latitude'', PStr ''1'')] [],
            Element ''Location'' [(''latitude'', PStr ''2'')] []]]) [] =
   Inr [Insert ''workouts'' [(''seq'', PInt 1), (''workout_events'', PList [])] workout_opts,
        InsertAll ''workout_points''
          [[(''latitude'', PStr ''1''), (''workout_id'', PStr ''k1'')],
           [(''latitude'', PStr ''2''), (''workout_id'', PStr ''k1'')]] points_opts]"
proof -
  let ?w = "Element ''Workout'' [(''seq'', PInt 1)]
        [Element ''WorkoutRoute'' []
           [Element ''Location'' [(''latitude'', PStr ''1'')] [],
            Element ''Location'' [(''latitude'', PStr ''2'')] []]]"
  have r: "workout_record ?w = Inr [(''seq'', PInt 1), (''workout_events'', PList [])]"
    by (simp add: workout_record_def findall_single)
  have locs: "findall ?w [''WorkoutRoute'', ''Location''] =
      [Element ''Location'' [(''latitude'', PStr ''1'')] [], Element ''Location'' [(''latitude'', PStr ''2'')] []]"
    by (simp add: findall_two)
  show ?thesis
    using workout_to_db_embedded [OF r locs, of
        "\<lparr>zip_archive = None, local_files = (\<lambda>_. None), gpx_walk = (\<lambda>_. None)\<rparr>" "\<lambda>_. ''k1''" "[]"]
    by (simp add: tag_point_def)
qed

text \<open>
  C20. A workout without embedded locations and with one \<open>FileReference\<close> asks the
  resolver for exactly one path, the reference's path under the export root, and writes
  one point per track point of that file, each tagged with the row's key.
\<close>

theorem workout_to_db_one_file:
  assumes "workout_record w = Inr r" and "findall w [''WorkoutRoute'', ''Location''] = []"
    and "findall w [''WorkoutRoute'', ''FileReference''] = [item]"
    and "el_get item ''path'' = Some (PStr p)"
    and "open_file_or_zip env (resolve_gpx_path p) = Inr doc" and "parse_gpx env doc = Inr gpts"
  shows "workout_to_db env h w l =
           Inr (insert_points (map (tag_point (h r)) gpts)
                  (l @ [Insert ''workouts'' r workout_opts, OpenFile (resolve_gpx_path p)]))"
  using assms by (simp add: workout_to_db_sidecar_eq)

theorem workout_to_db_one_file_witness:
  "workout_to_db \<lparr>zip_archive = None,
                  local_files = (\<lambda>f. if f = ''apple_health_export/workout-routes/r.gpx''
                                      then Some (''<?xml?>'' @ LF # ''<gpx/>'') else None),
                  gpx_walk = (\<lambda>t. Some [[(''latitude'', POther ''1.5'')]])\<rparr> (\<lambda>_. ''k2'')
     (Element ''Workout'' []
        [Element ''WorkoutRoute'' []
           [Element ''FileReference'' [(''path'', PStr ''/workout-routes/r.gpx'')] []]]) [] =
   Inr [Insert ''workouts'' [(''workout_events'', PList [])] workout_opts,
        OpenFile ''apple_health_export/workout-routes/r.gpx'',
        InsertAll ''workout_points'' [[(''latitude'', POther ''1.5''), (''workout_id'', PStr ''k2'')]] points_opts]"
proof -
  let ?env = "\<lparr>zip_archive = None,
                  local_files = (\<lambda>f. if f = ''apple_health_export/workout-routes/r.gpx''
                                      then Some (''<?xml?>'' @ LF # ''<gpx/>'') else None),
                  gpx_walk = (\<lambda>t. Some [[(''latitude'', POther ''1.5'')]])\<rparr>"
  let ?item = "Element ''FileReference'' [(''path'', PStr ''/workout-routes/r.gpx'')] []"
  let ?w = "Element ''Workout'' [] [Element ''WorkoutRoute'' [] [?item]]"
  have r: "workout_record ?w = Inr [(''workout_events'', PList [])]"
    by (simp add: workout_record_def findall_single)
  have locs: "findall ?w [''WorkoutRoute'', ''Location''] = []" by (simp add: findall_two)
  have refs: "findall ?w [''WorkoutRoute'', ''FileReference''] = [?item]" by (simp add: findall_two)
  have path: "el_get ?item ''path'' = Some (PStr ''/workout-routes/r.gpx'')" by (simp add: el_get_def)
  have res: "resolve_gpx_path ''/workout-routes/r.gpx'' = ''apple_health_export/workout-routes/r.gpx''"
    by (simp add: resolve_gpx_path_def export_root_def)
  have op: "open_file_or_zip ?env (resolve_gpx_path ''/workout-routes/r.gpx'') = Inr (''<?xml?>'' @ LF # ''<gpx/>'')"
    unfolding res by (simp add: open_file_or_zip_def)
  have pg: "parse_gpx ?env (''<?xml?>'' @ LF # ''<gpx/>'') = Inr [[(''latitude'', POther ''1.5'')]]"
    by (simp add: parse_gpx_def)
  show ?thesis
    using workout_to_db_one_file [OF r locs refs path op pg, of "\<lambda>_. ''k2''" "[]"] res
    by (simp add: insert_points_def tag_point_def)
qed

text \<open>
  C24. A workout without embedded locations whose \<open>FileReference\<close>s all have string
  paths, and whose files all open and parse, writes its row, then asks the resolver for
  each reference's path under the export root, in order, and writes the track points of
  all the files in one \<open>insert_all\<close>, file by file, each tagged with the row's key.
\<close>

theorem workout_to_db_files:
  assumes "workout_record w = Inr r" and "findall w [''WorkoutRoute'', ''Location''] = []"
    and "map (\<lambda>it. el_get it ''path'') (findall w [''WorkoutRoute'', ''FileReference'']) = map (\<lambda>p. Some (PStr p)) ps"
    and "list_all2 (\<lambda>p g. \<exists>doc. open_file_or_zip env (resolve_gpx_path p) = Inr doc \<and> parse_gpx env doc = Inr g) ps G"
  shows "workout_to_db env h w l =
           Inr (insert_points (map (tag_point (h r)) (concat G))
                  (l @ [Insert ''workouts'' r workout_opts] @ map (\<lambda>p. OpenFile (resolve_gpx_path p)) ps))"
proof -
  from assms(4) have "list_all2 (\<lambda>path g. \<exists>doc. open_file_or_zip env path = Inr doc \<and> parse_gpx env doc = Inr g)
                        (map resolve_gpx_path ps) G"
    by (simp add: list_all2_map1)
  from load_gpx_points_all [OF this, of "h r" "[]" "l @ [Insert ''workouts'' r workout_opts]"]
    gpx_paths_strs [OF assms(3)] assms(1,2)
  show ?thesis by (simp add: workout_to_db_sidecar_eq comp_def)
qed

theorem workout_to_db_files_witness:
  "workout_to_db demo_files_env (\<lambda>_. ''k'')
     (Element ''Workout'' [] [Element ''WorkoutRoute'' [] [demo_ref ''/a.gpx'', demo_ref ''/b.gpx'']]) [] =
   Inr [Insert ''workouts'' [(''workout_events'', PList [])] workout_opts,
        OpenFile ''apple_health_export/a.gpx'', OpenFile ''apple_health_export/b.gpx'',
        InsertAll ''workout_points'' [[(''doc'', PStr ''A''), (''workout_id'', PStr ''k'')],
                                     [(''doc'', PStr ''B''), (''workout_id'', PStr ''k'')]] points_opts]"
proof -
  let ?w = "Element ''Workout'' [] [Element ''WorkoutRoute'' [] [demo_ref ''/a.gpx'', demo_ref ''/b.gpx'']]"
  have r: "workout_record ?w = Inr [(''workout_events'', PList [])]"
    by (simp add: workout_record_def findall_def children_tagged_def demo_ref_def)
  have locs: "findall ?w [''WorkoutRoute'', ''Location''] = []" by (simp add: findall_def children_tagged_def demo_ref_def)

  have refs: "map (\<lambda>it. el_get it ''path'') (findall ?w [''WorkoutRoute'', ''FileReference'']) =
              map (\<lambda>p. Some (PStr p)) [''/a.gpx'', ''/b.gpx'']"
    by (simp add: findall_def children_tagged_def demo_ref_def el_get_def)
  have files: "list_all2 (\<lambda>p g. \<exists>doc. open_file_or_zip demo_files_env (resolve_gpx_path p) = Inr doc \<and>
                                     parse_gpx demo_files_env doc = Inr g)
                 [''/a.gpx'', ''/b.gpx''] [[[(''doc'', PStr ''A'')]], [[(''doc'', PStr ''B'')]]]"
    by (simp add: demo_files_env_def open_file_or_zip_def parse_gpx_def resolve_gpx_path_def
                  export_root_def after_first_line_def)
  from workout_to_db_files [OF r locs refs files, of "\<lambda>_. ''k''" "[]"] show ?thesis
    by (simp add: insert_points_def tag_point_def resolve_gpx_path_def export_root_def)

qed

text \<open>
  C21. When the referenced side-car file cannot be opened the run fails, but only after
  the workout's row has been inserted: the failure leaves a workout row without points.
\<close>

theorem workout_to_db_missing_file:
  assumes "workout_record w = Inr r" and "findall w [''WorkoutRoute'', ''Location''] = []"
    and "findall w [''WorkoutRoute'', ''FileReference''] = [item]"
    and "el_get item ''path'' = Some (PStr p)"
    and "open_file_or_zip env (resolve_gpx_path p) = Inl e"
  shows "workout_to_db env h w l = Inl (e, l @ [Insert ''workouts'' r workout_opts, OpenFile (resolve_gpx_path p)])"
  using assms by (simp add: workout_to_db_sidecar_eq)

theorem workout_to_db_missing_file_witness:
  "workout_to_db \<lparr>zip_archive = Some (\<lambda>_. None), local_files = (\<lambda>_. None), gpx_walk = (\<lambda>_. Some [])\<rparr>
     (\<lambda>_. ''k3'')
     (Element ''Workout'' []
        [Element ''WorkoutRoute'' [] [Element ''FileReference'' [(''path'', PStr ''/r.gpx'')] []]]) [] =
   Inl (KeyError ''apple_health_export/r.gpx'',
        [Insert ''workouts'' [(''workout_events'', PList [])] workout_opts, OpenFile ''apple_health_export/r.gpx''])"
proof -
  let ?env = "\<lparr>zip_archive = Some (\<lambda>_. None), local_files = (\<lambda>_. None), gpx_walk = (\<lambda>_. Some [])\<rparr>"
  let ?item = "Element ''FileReference'' [(''path'', PStr ''/r.gpx'')] []"
  let ?w = "Element ''Workout'' [] [Element ''WorkoutRoute'' [] [?item]]"
  have r: "workout_record ?w = Inr [(''workout_events'', PList [])]"
    by (simp add: workout_record_def findall_single)
  have locs: "findall ?w [''WorkoutRoute'', ''Location''] = []" by (simp add: findall_two)
  have refs: "findall ?w [''WorkoutRoute'', ''FileReference''] = [?item]" by (simp add: findall_two)
  have path: "el_get ?item ''path'' = Some (PStr ''/r.gpx'')" by (simp add: el_get_def)
  have res: "resolve_gpx_path ''/r.gpx'' = ''apple_health_export/r.gpx''"
    by (simp add: resolve_gpx_path_def export_root_def)
  have op: "open_file_or_zip ?env (resolve_gpx_path ''/r.gpx'') = Inl (KeyError ''apple_health_export/r.gpx'')"
    unfolding res by (simp add: open_file_or_zip_def)
  show ?thesis
    using workout_to_db_missing_file [OF r locs refs path op, of "\<lambda>_. ''k3''" "[]"] res by simp
qed

text \<open>
  C22. A \<open>MetadataEntry\<close> without a \<open>value\<close> attribute makes the workout fail with
  nothing written.
\<close>

theorem workout_to_db_metadata_error:
  assumes "c \<in> set (findall w [''MetadataEntry''])" and "''value'' \<notin> set (dict_keys (el_attrib c))"
  shows "\<exists>e. workout_to_db env h w l = Inl (e, l)"
proof -
  from add_metadata_missing_value [OF assms] obtain e
    where "add_metadata (el_attrib w) (findall w [''MetadataEntry'']) = Inl e" by blast
  then show ?thesis by (simp add: workout_to_db_def workout_record_def)
qed

theorem workout_to_db_metadata_error_witness:
  "\<exists>e. workout_to_db \<lparr>zip_archive = None, local_files = (\<lambda>_. None), gpx_walk = (\<lambda>_. None)\<rparr> (\<lambda>_. ''k'')
         (Element ''Workout'' [] [Element ''MetadataEntry'' [(''key'', PStr ''HKIndoorWorkout'')] []]) [] = Inl (e, [])"
  by (rule workout_to_db_metadata_error [of "Element ''MetadataEntry'' [(''key'', PStr ''HKIndoorWorkout'')] []"])
     (simp_all add: findall_single dict_keys_def)

text \<open>
  C27. The flattened metadata follows Python's dict assignment: the field
  \<open>metadata_k\<close> holds the \<open>value\<close> of the last entry with key \<open>k\<close>, and is the element's
  own attribute of that name when there is no such entry.
\<close>

theorem add_metadata_last_wins:
  assumes "add_metadata r cs = Inr r'"
  shows "map_of r' (''metadata_'' @ k) =
           (if metadata_for k cs = [] then map_of r (''metadata_'' @ k)
            else map_of (el_attrib (last (metadata_for k cs))) ''value'')"
  using assms
proof (induction r cs rule: add_metadata.induct)
  case (1 r)
  then show ?case by (simp add: metadata_for_def)
next
  case (2 r c cs)
  then show ?case
    by (auto simp: attrib_item_def metadata_for_def split: option.splits pyval.splits if_splits)
qed

theorem add_metadata_last_wins_witness:
  "map_of (projr (add_metadata [] [Element ''MetadataEntry'' [(''key'', PStr ''HKTimeZone''), (''value'', PStr ''a'')] [],
                                   Element ''MetadataEntry'' [(''key'', PStr ''HKTimeZone''), (''value'', PStr ''b'')] []]))
     ''metadata_HKTimeZone'' = Some (PStr ''b'')"
proof -
  let ?cs = "[Element ''MetadataEntry'' [(''key'', PStr ''HKTimeZone''), (''value'', PStr ''a'')] [],
              Element ''MetadataEntry'' [(''key'', PStr ''HKTimeZone''), (''value'', PStr ''b'')] []]"
  have "add_metadata [] ?cs = Inr [(''metadata_HKTimeZone'', PStr ''b'')]" by (simp add: attrib_item_def)
  with add_metadata_last_wins [OF this, of "''HKTimeZone''"] show ?thesis by (simp add: metadata_for_def)
qed

end
