(* ===== verification/Orchestrator.thy ===== *)
theory Orchestrator
  imports Tag_Stream Record_Router Workout_Assembler
begin

text \<open>
  The Conversion Orchestrator, \<open>convert_xml_to_sqlite\<close> (src/healthkit_to_sqlite/utils.py,
  lines 28--58). Its local variables are the record \<open>conv_state\<close>: the two buffers
  \<open>activity_summaries\<close> and \<open>records\<close>, the next workout ordinal \<open>workout_id\<close>, and
  the log of the calls made so far. One step handles one item of the extractor: an
  element is routed by its tag (a summary is buffered and the buffer flushed at 100, a
  workout gets its \<open>seq\<close> and is written at once, a record gets its metadata flattened,
  is buffered and the buffer flushed at 200); a progress report is passed to the
  callback. After the last item the remaining records, then the remaining summaries are
  flushed, and the callback receives \<open>sys.maxsize\<close>. \<open>el.clear()\<close> only releases
  memory and has no counterpart here.
\<close>

record conv_state =
  activity_summaries :: "row list"
  records :: "row list"
  workout_id :: int
  db_log :: log

definition conv_init :: conv_state where
  "conv_init = \<lparr>activity_summaries = [], records = [], workout_id = 1, db_log = []\<rparr>"

definition convert_tags :: "string set" where
  "convert_tags = {''Record'', ''Workout'', ''ActivitySummary''}"

text \<open>\<open>sys.maxsize\<close> on a 64-bit CPython.\<close>

definition sys_maxsize :: int where
  "sys_maxsize = 2 ^ 63 - 1"

text \<open>The flattened row of a \<open>Record\<close> element (lines 45--47).\<close>

definition record_row :: "element \<Rightarrow> error + row" where
  "record_row el = add_metadata (el_attrib el) (findall el [''MetadataEntry''])"

text \<open>The body of the \<open>for tag, el in find_all_tags(...)\<close> loop (lines 35--51).\<close>

definition handle_element ::
  "side_env \<Rightarrow> (row \<Rightarrow> string) \<Rightarrow> conv_state \<Rightarrow> string \<Rightarrow> element \<Rightarrow> conv_state outcome"
where
  "handle_element env h s tag el =
     (if tag = ''ActivitySummary'' then
        (let sums = activity_summaries s @ [el_attrib el] in
         if 100 \<le> length sums
         then Inr (s\<lparr>activity_summaries := [],
                     db_log := db_log s @ [InsertAll ''activity_summary'' sums default_opts]\<rparr>)
         else Inr (s\<lparr>activity_summaries := sums\<rparr>))
      else if tag = ''Workout'' then
        (case workout_to_db env h (el_set el ''seq'' (PInt (workout_id s))) (db_log s) of
           Inl err \<Rightarrow> Inl err
         | Inr l \<Rightarrow> Inr (s\<lparr>workout_id := workout_id s + 1, db_log := l\<rparr>))
      else if tag = ''Record'' then
        (case record_row el of
           Inl e \<Rightarrow> Inl (e, db_log s)
         | Inr r \<Rightarrow>
             (let recs = records s @ [r] in
              if 200 \<le> length recs
              then (case write_records recs (db_log s) of
                      Inl err \<Rightarrow> Inl err
                    | Inr l \<Rightarrow> Inr (s\<lparr>records := [], db_log := l\<rparr>))
              else Inr (s\<lparr>records := recs\<rparr>)))
      else Inr s)"

text \<open>One item of the extractor: an element for the loop body, or a progress report.\<close>

fun conv_step :: "side_env \<Rightarrow> (row \<Rightarrow> string) \<Rightarrow> conv_state \<Rightarrow> gen_item \<Rightarrow> conv_state outcome" where
  "conv_step env h s (Yield t el) = handle_element env h s t el"
| "conv_step env h s (Callback n) = Inr (s\<lparr>db_log := db_log s @ [Progress (int n)]\<rparr>)"

fun conv_run :: "side_env \<Rightarrow> (row \<Rightarrow> string) \<Rightarrow> conv_state \<Rightarrow> gen_item list \<Rightarrow> conv_state outcome" where
  "conv_run env h s [] = Inr s"
| "conv_run env h s (it # its) =
     (case conv_step env h s it of Inl err \<Rightarrow> Inl err | Inr s' \<Rightarrow> conv_run env h s' its)"

text \<open>Lines 53--58: the final flushes, records first, and the sentinel.\<close>

definition conv_finish :: "bool \<Rightarrow> conv_state \<Rightarrow> log outcome" where
  "conv_finish cb s =
     (case (if records s \<noteq> [] then write_records (records s) (db_log s) else Inr (db_log s)) of
        Inl err \<Rightarrow> Inl err
      | Inr l \<Rightarrow>
          (let l' = (if activity_summaries s \<noteq> []
                     then l @ [InsertAll ''activity_summary'' (activity_summaries s) default_opts] else l)
           in Inr (if cb then l' @ [Progress sys_maxsize] else l')))"

text \<open>
  The whole conversion: the parser collaborator (\<open>feed\<close>, initial state \<open>p0\<close>), the
  side-car collaborators, the storage's hash, the input bytes and whether a progress
  callback was given. The result is the log of calls, with the exception that ended the
  run if there was one.
\<close>

definition convert_xml_to_sqlite ::
  "('p \<Rightarrow> bytes \<Rightarrow> 'p \<times> xml_event list) \<Rightarrow> 'p \<Rightarrow> side_env \<Rightarrow> (row \<Rightarrow> string) \<Rightarrow> bytes \<Rightarrow> bool \<Rightarrow>
   log outcome"
where
  "convert_xml_to_sqlite feed p0 env h fp cb =
     (case find_all_tags feed p0 fp convert_tags cb of
        (items, gerr) \<Rightarrow>
          (case conv_run env h conv_init items of
             Inl err \<Rightarrow> Inl err
           | Inr s \<Rightarrow> (case gerr of Some e \<Rightarrow> Inl (e, db_log s) | None \<Rightarrow> conv_finish cb s)))"

definition outcome_log :: "log outcome \<Rightarrow> log" where
  "outcome_log r = (case r of Inl (e, l) \<Rightarrow> l | Inr l \<Rightarrow> l)"

text \<open>
  Views of the log the properties are stated over. Every table the router writes is named
  \<open>r\<close> followed by the type; the other tables of the converter (\<open>workouts\<close>,
  \<open>workout_points\<close>, \<open>activity_summary\<close>) do not begin with \<open>r\<close>.
\<close>

definition record_table :: "string \<Rightarrow> bool" where
  "record_table t = (case t of c # _ \<Rightarrow> c = CHR ''r'' | [] \<Rightarrow> False)"

definition is_record_insert :: "effect \<Rightarrow> bool" where
  "is_record_insert e = (case e of InsertAll t rows o' \<Rightarrow> record_table t | _ \<Rightarrow> False)"

definition record_inserts :: "log \<Rightarrow> log" where
  "record_inserts l = filter is_record_insert l"

text \<open>The calls a successful flush of \<open>rs\<close> makes, after the abstract grouping.\<close>

definition record_inserts_of :: "row list \<Rightarrow> log" where
  "record_inserts_of rs =
     (case pop_all rs of Inl e \<Rightarrow> [] | Inr ps \<Rightarrow> map (\<lambda>(t, rows). InsertAll t rows record_opts) (group_spec ps))"

text \<open>The elements with tag \<open>t\<close> among the extractor's yields.\<close>

definition tagged :: "string \<Rightarrow> (string \<times> element) list \<Rightarrow> element list" where
  "tagged t ys = map snd (filter (\<lambda>p. fst p = t) ys)"

text \<open>The flattened rows (lines 45--47) of a list of \<open>Record\<close> elements, in order.\<close>

fun record_rows :: "element list \<Rightarrow> error + row list" where
  "record_rows [] = Inr []"
| "record_rows (e # es) =
     (case record_row e of
        Inl x \<Rightarrow> Inl x
      | Inr r \<Rightarrow> (case record_rows es of Inl x \<Rightarrow> Inl x | Inr rs \<Rightarrow> Inr (r # rs)))"

text \<open>
  The workout ordinals: the \<open>n\<close>-th row written to \<open>workouts\<close> carries
  \<open>seq = n\<close>, and the counter of the state is one more than the rows written.
\<close>

definition seq_ok :: "log \<Rightarrow> bool" where
  "seq_ok l \<longleftrightarrow>
     map (\<lambda>r. map_of r ''seq'') (inserts_to ''workouts'' l) =
     map (\<lambda>k. Some (PInt (int k))) [1..<Suc (length (inserts_to ''workouts'' l))]"

definition seq_inv :: "conv_state \<Rightarrow> bool" where
  "seq_inv s \<longleftrightarrow> seq_ok (db_log s) \<and> workout_id s = int (length (inserts_to ''workouts'' (db_log s))) + 1"

text \<open>
  The foreign key of \<open>workout_points\<close>: every point row written refers, by its
  \<open>workout_id\<close>, to the key the storage's hash \<open>h\<close> gave a workout row written
  before it.
\<close>

fun fk_from :: "(row \<Rightarrow> string) \<Rightarrow> string list \<Rightarrow> log \<Rightarrow> bool" where
  "fk_from h ks [] = True"
| "fk_from h ks (Insert t r o' # l) = fk_from h (if t = ''workouts'' then h r # ks else ks) l"
| "fk_from h ks (InsertAll t rows o' # l) =
     ((t = ''workout_points'' \<longrightarrow> (\<forall>row \<in> set rows. \<exists>k \<in> set ks. map_of row ''workout_id'' = Some (PStr k))) \<and>
      fk_from h ks l)"
| "fk_from h ks (OpenFile p # l) = fk_from h ks l"
| "fk_from h ks (Progress n # l) = fk_from h ks l"

definition workouts_fk :: "(row \<Rightarrow> string) \<Rightarrow> log \<Rightarrow> bool" where
  "workouts_fk h l = fk_from h [] l"

text \<open>
  The invariant of the loop state, and the states the loop reaches from
  \<open>conv_init\<close> by successful steps.
\<close>

definition conv_inv :: "(row \<Rightarrow> string) \<Rightarrow> conv_state \<Rightarrow> bool" where
  "conv_inv h s \<longleftrightarrow>
     length (activity_summaries s) < 100 \<and> length (records s) < 200 \<and> seq_inv s \<and> fk_from h [] (db_log s)"

inductive conv_reachable :: "side_env \<Rightarrow> (row \<Rightarrow> string) \<Rightarrow> conv_state \<Rightarrow> bool" for env h where
  reach_init: "conv_reachable env h conv_init"
| reach_step: "conv_reachable env h s \<Longrightarrow> conv_step env h s it = Inr s' \<Longrightarrow> conv_reachable env h s'"

section \<open>Lemmas\<close>

lemma table_name_r: "record_table (table_name ty)"
  by (simp add: table_name_def record_table_def)

lemma pop_all_tables: "pop_all rs = Inr ps \<Longrightarrow> (t, r) \<in> set ps \<Longrightarrow> record_table t"
  by (auto dest: pop_all_Inr simp: table_name_r)

lemma record_inserts_of_record:
  assumes "e \<in> set (record_inserts_of rs)"
  shows "is_record_insert e"
proof (cases "pop_all rs")
  case (Inl err)
  with assms show ?thesis by (simp add: record_inserts_of_def)
next
  case (Inr ps)
  with assms obtain t where t: "t \<in> set (map fst ps)" and e: "e = InsertAll t (vals_of t ps) record_opts"
    by (auto simp: record_inserts_of_def group_spec_def)
  from t obtain r where "(t, r) \<in> set ps" by auto
  with Inr have "record_table t" by (rule pop_all_tables)
  with e show ?thesis by (simp add: is_record_insert_def)
qed

lemma write_records_Inr:
  "write_records rs l = Inr l' \<Longrightarrow> l' = l @ record_inserts_of rs"
  by (auto simp: write_records_eq record_inserts_of_def split: sum.splits)

lemma write_records_pop: "write_records rs l = Inr l' \<Longrightarrow> \<exists>ps. pop_all rs = Inr ps"
  by (auto simp: write_records_eq split: sum.splits)

lemma write_records_Inl:
  "write_records rs l = Inl (e, l') \<Longrightarrow> l' = l"
  by (auto simp: write_records_eq split: sum.splits)

text \<open>What a list of record-table inserts contributes to the other projections.\<close>

lemma record_only_projections:
  assumes "\<forall>e \<in> set xs. is_record_insert e"
  shows "batches_to ''activity_summary'' xs = [] \<and> inserts_to ''workouts'' xs = [] \<and>
         progress_of xs = [] \<and> opened xs = [] \<and> batches_to ''workout_points'' xs = [] \<and>
         record_inserts xs = xs"
  using assms
proof (induction xs)
  case Nil
  then show ?case by (simp add: record_inserts_def)
next
  case (Cons e xs)
  then show ?case
    by (cases e) (auto simp: is_record_insert_def record_inserts_def record_table_def)
qed

lemma record_inserts_append [simp]: "record_inserts (l1 @ l2) = record_inserts l1 @ record_inserts l2"
  by (simp add: record_inserts_def)

lemma record_inserts_simps [simp]:
  "record_inserts [] = []"
  "record_inserts (Insert t r o' # l) = record_inserts l"
  "record_inserts (OpenFile p # l) = record_inserts l"
  "record_inserts (Progress n # l) = record_inserts l"
  "record_inserts (InsertAll ''activity_summary'' rows o' # l) = record_inserts l"
  "record_inserts (InsertAll ''workout_points'' rows o' # l) = record_inserts l"
  by (simp_all add: record_inserts_def is_record_insert_def record_table_def)

lemma insert_points_projections:
  "batches_to ''activity_summary'' (insert_points pts l) = batches_to ''activity_summary'' l \<and>
   inserts_to t (insert_points pts l) = inserts_to t l \<and>
   progress_of (insert_points pts l) = progress_of l \<and>
   record_inserts (insert_points pts l) = record_inserts l"
  by (simp add: insert_points_def)

lemma workout_to_db_projections:
  assumes "workout_to_db env h w l = Inr l'"
  shows "\<exists>r. workout_record w = Inr r \<and>
           batches_to ''activity_summary'' l' = batches_to ''activity_summary'' l \<and>
           inserts_to ''workouts'' l' = inserts_to ''workouts'' l @ [r] \<and>
           progress_of l' = progress_of l \<and> record_inserts l' = record_inserts l"
proof -
  from workout_to_db_Inr [OF assms] obtain r opens pts where
    r: "workout_record w = Inr r" and
    l': "l' = insert_points pts (l @ [Insert ''workouts'' r workout_opts] @ map OpenFile opens)"
    by blast
  have "batches_to t (map OpenFile opens) = []" "inserts_to t (map OpenFile opens) = []"
       "progress_of (map OpenFile opens) = []" "record_inserts (map OpenFile opens) = []" for t
    by (induction opens) auto
  with r l' show ?thesis by (simp add: insert_points_projections)
qed

lemma handle_element_InrE:
  assumes "handle_element env h s t el = Inr s'"
  obtains (sum_buffer) "t = ''ActivitySummary''" "length (activity_summaries s @ [el_attrib el]) < 100"
      "s' = s\<lparr>activity_summaries := activity_summaries s @ [el_attrib el]\<rparr>"
  | (sum_flush) "t = ''ActivitySummary''" "100 \<le> length (activity_summaries s @ [el_attrib el])"
      "s' = s\<lparr>activity_summaries := [],
              db_log := db_log s @ [InsertAll ''activity_summary'' (activity_summaries s @ [el_attrib el]) default_opts]\<rparr>"
  | (workout) l where "t = ''Workout''"
      "workout_to_db env h (el_set el ''seq'' (PInt (workout_id s))) (db_log s) = Inr l"
      "s' = s\<lparr>workout_id := workout_id s + 1, db_log := l\<rparr>"
  | (rec_buffer) r where "t = ''Record''" "record_row el = Inr r" "length (records s @ [r]) < 200"
      "s' = s\<lparr>records := records s @ [r]\<rparr>"
  | (rec_flush) r l where "t = ''Record''" "record_row el = Inr r" "200 \<le> length (records s @ [r])"
      "write_records (records s @ [r]) (db_log s) = Inr l" "s' = s\<lparr>records := [], db_log := l\<rparr>"
  | (other) "t \<noteq> ''ActivitySummary''" "t \<noteq> ''Workout''" "t \<noteq> ''Record''" "s' = s"
  using assms unfolding handle_element_def Let_def
  by (auto split: if_splits sum.splits simp del: length_append)

lemma handle_element_InlE:
  assumes "handle_element env h s t el = Inl (e, l)"
  obtains (workout) "t = ''Workout''" "workout_to_db env h (el_set el ''seq'' (PInt (workout_id s))) (db_log s) = Inl (e, l)"
  | (unchanged) "l = db_log s"
  using assms unfolding handle_element_def Let_def
  by (auto split: if_splits sum.splits dest: write_records_Inl)

lemma tagged_simps [simp]:
  "tagged t [] = []"
  "tagged t ((t', e) # ys) = (if t' = t then e # tagged t ys else tagged t ys)"
  "tagged t (ys @ zs) = tagged t ys @ tagged t zs"
  by (simp_all add: tagged_def)

lemma yields_Cons_split: "yields (it # its) = yields [it] @ yields its"
  by (cases it) simp_all

lemma callbacks_Cons_split: "callbacks (it # its) = callbacks [it] @ callbacks its"
  by (cases it) simp_all

lemma record_rows_append:
  "record_rows xs = Inr rs1 \<Longrightarrow> record_rows ys = Inr rs2 \<Longrightarrow> record_rows (xs @ ys) = Inr (rs1 @ rs2)"
  by (induction xs arbitrary: rs1) (auto split: sum.splits)

lemma record_only_log:
  "write_records rs l = Inr l' \<Longrightarrow>
   batches_to ''activity_summary'' l' = batches_to ''activity_summary'' l \<and>
   inserts_to ''workouts'' l' = inserts_to ''workouts'' l \<and> progress_of l' = progress_of l \<and>
   record_inserts l' = record_inserts l @ record_inserts_of rs"
proof -
  assume "write_records rs l = Inr l'"
  then have l': "l' = l @ record_inserts_of rs" by (rule write_records_Inr)
  have "\<forall>e \<in> set (record_inserts_of rs). is_record_insert e" by (blast intro: record_inserts_of_record)
  then show ?thesis using l' by (simp add: record_only_projections)
qed

lemma conv_step_summaries:
  assumes "conv_step env h s it = Inr s'" and "length (activity_summaries s) < 100"
  shows "\<exists>F. (\<forall>f \<in> set F. length f = 100) \<and>
           activity_summaries s @ map el_attrib (tagged ''ActivitySummary'' (yields [it])) =
             concat F @ activity_summaries s' \<and>
           batches_to ''activity_summary'' (db_log s') = batches_to ''activity_summary'' (db_log s) @ F \<and>
           length (activity_summaries s') < 100"
proof (cases it)
  case (Callback n)
  with assms show ?thesis by auto
next
  case (Yield t el)
  with assms(1) have he: "handle_element env h s t el = Inr s'" by simp
  from he show ?thesis
  proof (cases rule: handle_element_InrE)
    case sum_buffer
    with Yield show ?thesis by auto
  next
    case sum_flush
    with Yield assms(2) show ?thesis
      by (intro exI [of _ "[activity_summaries s @ [el_attrib el]]"]) auto
  next
    case (workout l)
    with Yield assms(2) show ?thesis by (auto dest!: workout_to_db_projections)
  next
    case (rec_buffer r)
    with Yield assms(2) show ?thesis by auto
  next
    case (rec_flush r l)
    with Yield assms(2) show ?thesis by (auto dest!: record_only_log)
  next
    case other
    with Yield assms(2) show ?thesis by auto
  qed
qed

lemma conv_run_summaries:
  assumes "conv_run env h s items = Inr s'" and "length (activity_summaries s) < 100"
  shows "\<exists>F. (\<forall>f \<in> set F. length f = 100) \<and>
           activity_summaries s @ map el_attrib (tagged ''ActivitySummary'' (yields items)) =
             concat F @ activity_summaries s' \<and>
           batches_to ''activity_summary'' (db_log s') = batches_to ''activity_summary'' (db_log s) @ F \<and>
           length (activity_summaries s') < 100"
  using assms
proof (induction items arbitrary: s)
  case Nil
  then show ?case by auto
next
  case (Cons it its)
  from Cons.prems obtain s1 where st: "conv_step env h s it = Inr s1"
    and run: "conv_run env h s1 its = Inr s'" by (auto split: sum.splits)
  from conv_step_summaries [OF st Cons.prems(2)] obtain F1 where
    F1: "\<forall>f \<in> set F1. length f = 100"
    "activity_summaries s @ map el_attrib (tagged ''ActivitySummary'' (yields [it])) = concat F1 @ activity_summaries s1"
    "batches_to ''activity_summary'' (db_log s1) = batches_to ''activity_summary'' (db_log s) @ F1"
    "length (activity_summaries s1) < 100" by blast
  from Cons.IH [OF run F1(4)] obtain F2 where
    F2: "\<forall>f \<in> set F2. length f = 100"
    "activity_summaries s1 @ map el_attrib (tagged ''ActivitySummary'' (yields its)) = concat F2 @ activity_summaries s'"
    "batches_to ''activity_summary'' (db_log s') = batches_to ''activity_summary'' (db_log s1) @ F2"
    "length (activity_summaries s') < 100" by blast
  have "activity_summaries s @ map el_attrib (tagged ''ActivitySummary'' (yields (it # its))) =
        concat (F1 @ F2) @ activity_summaries s'"
    using F1(2) F2(2) by (simp add: yields_Cons_split [of it its] flip: append_assoc) (metis append.assoc)
  with F1 F2 show ?case by (intro exI [of _ "F1 @ F2"]) auto
qed

lemma conv_step_progress:
  "conv_step env h s it = Inr s' \<Longrightarrow> progress_of (db_log s') = progress_of (db_log s) @ map int (callbacks [it])"
proof (cases it)
  case (Yield t el)
  assume "conv_step env h s it = Inr s'"
  with Yield have "handle_element env h s t el = Inr s'" by simp
  then show ?thesis
  proof (cases rule: handle_element_InrE)
    case (workout l)
    with Yield show ?thesis by (auto dest!: workout_to_db_projections)
  next
    case (rec_flush r l)
    with Yield show ?thesis by (auto dest!: record_only_log)
  qed (use Yield in auto)
qed auto

lemma conv_run_progress:
  "conv_run env h s items = Inr s' \<Longrightarrow> progress_of (db_log s') = progress_of (db_log s) @ map int (callbacks items)"
proof (induction items arbitrary: s)
  case (Cons it its)
  then obtain s1 where "conv_step env h s it = Inr s1" "conv_run env h s1 its = Inr s'"
    by (auto split: sum.splits)
  with Cons.IH show ?case
    by (auto dest!: conv_step_progress simp: callbacks_Cons_split [of it its])
qed simp

lemma record_rows_single: "record_row el = Inr r \<Longrightarrow> record_rows [el] = Inr [r]"
  by simp

lemma conv_step_records:
  assumes "conv_step env h s it = Inr s'" and "length (records s) < 200"
  shows "\<exists>RS G. record_rows (tagged ''Record'' (yields [it])) = Inr RS \<and> (\<forall>g \<in> set G. length g = 200) \<and>
           records s @ RS = concat G @ records s' \<and>
           record_inserts (db_log s') = record_inserts (db_log s) @ concat (map record_inserts_of G) \<and>
           length (records s') < 200 \<and> (\<forall>g \<in> set G. \<exists>ps. pop_all g = Inr ps)"
proof (cases it)
  case (Callback n)
  with assms show ?thesis by (intro exI [of _ "[]"] exI [of _ "[]"]) auto
next
  case (Yield t el)
  with assms(1) have he: "handle_element env h s t el = Inr s'" by simp
  from he show ?thesis
  proof (cases rule: handle_element_InrE)
    case (workout l)
    with Yield assms(2) show ?thesis
      by (intro exI [of _ "[]"] exI [of _ "[]"]) (auto dest!: workout_to_db_projections)
  next
    case (rec_buffer r)
    with Yield show ?thesis by (intro exI [of _ "[r]"] exI [of _ "[]"]) auto
  next
    case (rec_flush r l)
    with Yield assms(2) show ?thesis
      by (intro exI [of _ "[r]"] exI [of _ "[records s @ [r]]"]) (auto dest: record_only_log write_records_pop)
  qed (use Yield assms(2) in \<open>intro exI [of _ "[]"] exI [of _ "[]"], auto\<close>)+
qed

lemma conv_run_records:
  assumes "conv_run env h s items = Inr s'" and "length (records s) < 200"
  shows "\<exists>RS G. record_rows (tagged ''Record'' (yields items)) = Inr RS \<and> (\<forall>g \<in> set G. length g = 200) \<and>
           records s @ RS = concat G @ records s' \<and>
           record_inserts (db_log s') = record_inserts (db_log s) @ concat (map record_inserts_of G) \<and>
           length (records s') < 200 \<and> (\<forall>g \<in> set G. \<exists>ps. pop_all g = Inr ps)"
  using assms
proof (induction items arbitrary: s)
  case Nil
  then show ?case by (intro exI [of _ "[]"]) auto
next
  case (Cons it its)
  from Cons.prems obtain s1 where st: "conv_step env h s it = Inr s1"
    and run: "conv_run env h s1 its = Inr s'" by (auto split: sum.splits)
  from conv_step_records [OF st Cons.prems(2)] obtain RS1 G1 where
    A: "record_rows (tagged ''Record'' (yields [it])) = Inr RS1" "\<forall>g \<in> set G1. length g = 200"
       "records s @ RS1 = concat G1 @ records s1"
       "record_inserts (db_log s1) = record_inserts (db_log s) @ concat (map record_inserts_of G1)"
       "length (records s1) < 200" "\<forall>g \<in> set G1. \<exists>ps. pop_all g = Inr ps" by blast
  from Cons.IH [OF run A(5)] obtain RS2 G2 where
    B: "record_rows (tagged ''Record'' (yields its)) = Inr RS2" "\<forall>g \<in> set G2. length g = 200"
       "records s1 @ RS2 = concat G2 @ records s'"
       "record_inserts (db_log s') = record_inserts (db_log s1) @ concat (map record_inserts_of G2)"
       "length (records s') < 200" "\<forall>g \<in> set G2. \<exists>ps. pop_all g = Inr ps" by blast

  have "record_rows (tagged ''Record'' (yields (it # its))) = Inr (RS1 @ RS2)"
    using A(1) B(1) by (simp add: yields_Cons_split [of it its] record_rows_append)
  moreover have "records s @ RS1 @ RS2 = concat (G1 @ G2) @ records s'"
    using A(3) B(3) by (metis append.assoc concat_append)
  ultimately show ?case using A B by (intro exI [of _ "RS1 @ RS2"] exI [of _ "G1 @ G2"]) auto
qed

lemma seq_ok_same: "inserts_to ''workouts'' l' = inserts_to ''workouts'' l \<Longrightarrow> seq_ok l' = seq_ok l"
  by (simp add: seq_ok_def)

lemma seq_inv_frame:
  "inserts_to ''workouts'' (db_log s') = inserts_to ''workouts'' (db_log s) \<Longrightarrow> workout_id s' = workout_id s \<Longrightarrow>
   seq_inv s' = seq_inv s"
  by (simp add: seq_inv_def seq_ok_def)

lemma workout_record_seq:
  assumes "workout_record (el_set el ''seq'' v) = Inr r"
  shows "map_of r ''seq'' = Some v"
proof -
  from assms obtain r0 where
    md: "add_metadata (dict_set (el_attrib el) ''seq'' v) (findall (el_set el ''seq'' v) [''MetadataEntry'']) = Inr r0"
    and r: "r = dict_set r0 ''workout_events''
                 (PList (map (\<lambda>ev. PDict (el_attrib ev)) (findall (el_set el ''seq'' v) [''WorkoutEvent''])))"
    by (auto simp: workout_record_def split: sum.splits)
  from add_metadata_other_keys [OF md, of "''seq''"] have "map_of r0 ''seq'' = Some v" by simp
  with r show ?thesis by simp
qed

lemma seq_ok_extend:
  assumes "seq_ok l" and "inserts_to ''workouts'' l' = inserts_to ''workouts'' l @ [r]"
    and "map_of r ''seq'' = Some (PInt (int (length (inserts_to ''workouts'' l)) + 1))"
  shows "seq_ok l'"
  using assms by (simp add: seq_ok_def)

lemma map_OpenFile_projections [simp]:
  "batches_to t (map OpenFile ps) = []" "inserts_to t (map OpenFile ps) = []"
  "progress_of (map OpenFile ps) = []" "record_inserts (map OpenFile ps) = []"
  by (induction ps) auto

lemma conv_step_workouts:
  assumes "conv_step env h s it = Inr s'"
  shows "(\<exists>el l r. it = Yield ''Workout'' el \<and>
            workout_record (el_set el ''seq'' (PInt (workout_id s))) = Inr r \<and>
            inserts_to ''workouts'' (db_log s') = inserts_to ''workouts'' (db_log s) @ [r] \<and>
            workout_id s' = workout_id s + 1) \<or>
         (inserts_to ''workouts'' (db_log s') = inserts_to ''workouts'' (db_log s) \<and>
          workout_id s' = workout_id s \<and> tagged ''Workout'' (yields [it]) = [])"
proof (cases it)
  case (Callback n)
  with assms show ?thesis by auto
next
  case (Yield t el)
  with assms(1) have he: "handle_element env h s t el = Inr s'" by simp
  from he show ?thesis
  proof (cases rule: handle_element_InrE)
    case (workout l)
    from workout_to_db_projections [OF workout(2)] obtain r where
      "workout_record (el_set el ''seq'' (PInt (workout_id s))) = Inr r"
      "inserts_to ''workouts'' l = inserts_to ''workouts'' (db_log s) @ [r]" by blast
    with workout Yield show ?thesis by auto
  next
    case (rec_flush r l)
    from record_only_log [OF rec_flush(4)]
    have "inserts_to ''workouts'' l = inserts_to ''workouts'' (db_log s)" by simp
    with rec_flush Yield show ?thesis by auto
  qed (use Yield in auto)
qed

lemma conv_step_seq:
  assumes "conv_step env h s it = Inr s'" and "seq_inv s"
  shows "seq_inv s' \<and>
         length (inserts_to ''workouts'' (db_log s')) =
           length (inserts_to ''workouts'' (db_log s)) + length (tagged ''Workout'' (yields [it]))"
  using conv_step_workouts [OF assms(1)]
proof
  assume "\<exists>el l r. it = Yield ''Workout'' el \<and>
            workout_record (el_set el ''seq'' (PInt (workout_id s))) = Inr r \<and>
            inserts_to ''workouts'' (db_log s') = inserts_to ''workouts'' (db_log s) @ [r] \<and>
            workout_id s' = workout_id s + 1"
  then obtain el r where it: "it = Yield ''Workout'' el"
    and r: "workout_record (el_set el ''seq'' (PInt (workout_id s))) = Inr r"
    and ins: "inserts_to ''workouts'' (db_log s') = inserts_to ''workouts'' (db_log s) @ [r]"
    and wid: "workout_id s' = workout_id s + 1" by blast
  from workout_record_seq [OF r] assms(2)
  have sq: "map_of r ''seq'' = Some (PInt (int (length (inserts_to ''workouts'' (db_log s))) + 1))"
    by (simp add: seq_inv_def)
  from assms(2) have "seq_ok (db_log s)" by (simp add: seq_inv_def)
  then have "seq_ok (db_log s')" using ins sq by (rule seq_ok_extend)
  with ins wid assms(2) it show ?thesis by (simp add: seq_inv_def)
next
  assume fr: "inserts_to ''workouts'' (db_log s') = inserts_to ''workouts'' (db_log s) \<and>
              workout_id s' = workout_id s \<and> tagged ''Workout'' (yields [it]) = []"
  then have "seq_inv s' = seq_inv s" unfolding seq_inv_def seq_ok_def by simp
  with fr assms(2) show ?thesis by simp
qed

lemma conv_step_seq_Inl:
  assumes "conv_step env h s it = Inl (e, l)" and "seq_inv s"
  shows "seq_ok l"
proof (cases it)
  case (Yield t el)
  with assms(1) have "handle_element env h s t el = Inl (e, l)" by simp
  then show ?thesis
  proof (cases rule: handle_element_InlE)
    case workout
    from workout_to_db_Inl [OF workout(2)] show ?thesis
    proof
      assume "l = db_log s"
      with assms(2) show ?thesis by (simp add: seq_inv_def)
    next
      assume "\<exists>r opens. workout_record (el_set el ''seq'' (PInt (workout_id s))) = Inr r \<and>
                l = db_log s @ [Insert ''workouts'' r workout_opts] @ map OpenFile opens"
      then obtain r opens where r: "workout_record (el_set el ''seq'' (PInt (workout_id s))) = Inr r"
        and l: "l = db_log s @ [Insert ''workouts'' r workout_opts] @ map OpenFile opens" by blast
      from workout_record_seq [OF r] assms(2)
      have sq: "map_of r ''seq'' = Some (PInt (int (length (inserts_to ''workouts'' (db_log s))) + 1))"
        by (simp add: seq_inv_def)
      have ins: "inserts_to ''workouts'' l = inserts_to ''workouts'' (db_log s) @ [r]" using l by simp
      from assms(2) have "seq_ok (db_log s)" by (simp add: seq_inv_def)
      then show ?thesis using ins sq by (rule seq_ok_extend)
    qed
  next
    case unchanged
    with assms(2) show ?thesis by (simp add: seq_inv_def)
  qed
next
  case (Callback n)
  with assms(1) show ?thesis by simp
qed

lemma fk_from_append:
  "fk_from h ks (l1 @ l2) = (fk_from h ks l1 \<and> fk_from h (rev (map h (inserts_to ''workouts'' l1)) @ ks) l2)"
  by (induction h ks l1 rule: fk_from.induct) auto

lemma fk_from_OpenFiles [simp]: "fk_from h ks (map OpenFile ps)"
  by (induction ps) auto

lemma fk_from_record_inserts:
  "\<forall>e \<in> set xs. is_record_insert e \<Longrightarrow> fk_from h ks xs"
proof (induction xs)
  case (Cons e xs)
  then show ?case by (cases e) (auto simp: is_record_insert_def record_table_def)
qed simp

lemma fk_write_records:
  assumes "write_records rs l = Inr l'" and "fk_from h [] l"
  shows "fk_from h [] l'"
proof -
  from assms(1) have l': "l' = l @ record_inserts_of rs" by (rule write_records_Inr)
  have "\<forall>e \<in> set (record_inserts_of rs). is_record_insert e" by (blast intro: record_inserts_of_record)
  then have "fk_from h ks (record_inserts_of rs)" for ks by (rule fk_from_record_inserts)
  with assms(2) l' show ?thesis by (simp add: fk_from_append)
qed

lemma fk_workout_to_db:
  assumes "fk_from h [] l"
  shows "workout_to_db env h w l = Inr l' \<Longrightarrow> fk_from h [] l'"
    and "workout_to_db env h w l = Inl (e, l') \<Longrightarrow> fk_from h [] l'"
proof -
  assume "workout_to_db env h w l = Inr l'"
  from workout_to_db_Inr [OF this] obtain r opens pts where
    l': "l' = insert_points pts (l @ [Insert ''workouts'' r workout_opts] @ map OpenFile opens)"
    and pts: "\<forall>p \<in> set pts. map_of p ''workout_id'' = Some (PStr (h r))" by blast
  from assms l' pts show "fk_from h [] l'" by (auto simp: insert_points_def fk_from_append)
next
  assume "workout_to_db env h w l = Inl (e, l')"
  from workout_to_db_Inl [OF this] assms show "fk_from h [] l'"
    by (auto simp: fk_from_append)
qed

lemma conv_step_fk:
  assumes "fk_from h [] (db_log s)"
  shows "conv_step env h s it = Inr s' \<Longrightarrow> fk_from h [] (db_log s')"
    and "conv_step env h s it = Inl (e, l) \<Longrightarrow> fk_from h [] l"
proof -
  assume st: "conv_step env h s it = Inr s'"
  show "fk_from h [] (db_log s')"
  proof (cases it)
    case (Callback n)
    with st assms show ?thesis by (auto simp: fk_from_append)
  next
    case (Yield t el)
    with st have "handle_element env h s t el = Inr s'" by simp
    then show ?thesis
    proof (cases rule: handle_element_InrE)
      case sum_flush
      with assms show ?thesis by (simp add: fk_from_append)
    next
      case (workout l)
      with assms show ?thesis by (simp add: fk_workout_to_db(1))
    next
      case (rec_flush r l)
      with assms show ?thesis by (simp add: fk_write_records)
    qed (use assms in simp_all)
  qed
next
  assume st: "conv_step env h s it = Inl (e, l)"
  show "fk_from h [] l"
  proof (cases it)
    case (Yield t el)
    with st have "handle_element env h s t el = Inl (e, l)" by simp
    then show ?thesis
    proof (cases rule: handle_element_InlE)
      case workout
      with assms show ?thesis by (blast intro: fk_workout_to_db(2))
    next
      case unchanged
      with assms show ?thesis by simp
    qed
  qed (use st in simp)
qed

lemma seq_inv_init: "seq_inv conv_init"
  by (simp add: seq_inv_def seq_ok_def conv_init_def)

lemma conv_step_inv:
  assumes "conv_step env h s it = Inr s'" and "conv_inv h s"
  shows "conv_inv h s'"
proof -
  from assms(2) have b: "length (activity_summaries s) < 100" "length (records s) < 200"
    and i: "seq_inv s" "fk_from h [] (db_log s)" by (simp_all add: conv_inv_def)
  from conv_step_summaries [OF assms(1) b(1)] conv_step_records [OF assms(1) b(2)]
    conv_step_seq [OF assms(1) i(1)] conv_step_fk(1) [OF i(2) assms(1)]
  show ?thesis by (auto simp: conv_inv_def)
qed

lemma conv_inv_init: "conv_inv h conv_init"
  by (simp add: conv_inv_def seq_inv_init) (simp add: conv_init_def)

text \<open>
  C9. Every state the loop reaches from the initial state satisfies the invariant: both
  buffers are below their flush size, the workout counter is one more than the workouts
  written and their ordinals are \<open>1, 2, ...\<close>, and every point row written refers to a
  workout written before it. A step that raises from such a state leaves a log with the
  same two database properties.
\<close>

theorem conv_reachable_inv:
  assumes "conv_reachable env h s"
  shows "conv_inv h s \<and>
         (\<forall>it e l. conv_step env h s it = Inl (e, l) \<longrightarrow> seq_ok l \<and> fk_from h [] l)"
proof -
  from assms have inv: "conv_inv h s"
  proof (induction rule: conv_reachable.induct)
    case reach_init
    show ?case by (rule conv_inv_init)
  next
    case (reach_step s it s')
    from reach_step.hyps(2) reach_step.IH show ?case by (rule conv_step_inv)
  qed
  then have "seq_inv s" "fk_from h [] (db_log s)" by (simp_all add: conv_inv_def)
  with inv conv_step_seq_Inl conv_step_fk(2) show ?thesis by blast
qed

lemma demo_record_step:
  "handle_element env h conv_init ''Record'' demo_record =
     Inr (conv_init\<lparr>records := [[(''type'', PStr ''HKQuantityTypeIdentifierStepCount'')]]\<rparr>)"
  by (simp add: handle_element_def record_row_def demo_record_def findall_single conv_init_def)

theorem conv_reachable_inv_witness:
  "conv_inv (\<lambda>_. ''k'') (conv_init\<lparr>records := [[(''type'', PStr ''HKQuantityTypeIdentifierStepCount'')]]\<rparr>)"
proof -
  have "conv_reachable env (\<lambda>_. ''k'') (conv_init\<lparr>records := [[(''type'', PStr ''HKQuantityTypeIdentifierStepCount'')]]\<rparr>)"
    for env
    by (rule reach_step [OF reach_init, of _ _ "Yield ''Record'' demo_record"]) (simp add: demo_record_step)
  then show ?thesis using conv_reachable_inv by blast
qed

end
