(* ===== verification/Conversion_Runs.thy ===== *)
theory Conversion_Runs
  imports Orchestrator
begin

text \<open>
  Whole runs of \<open>convert_xml_to_sqlite\<close>: how the loop \<open>conv_run\<close> and the final flushes
  \<open>conv_finish\<close> carry the per-step facts of \<open>Orchestrator\<close> over a list of items, on the
  normal return and on every exception; how a run's outcome follows from the extractor's;
  the conditions under which a run returns; the progress reports of every outcome; and
  the sizes of the bulk inserts. The root theory states the properties of a run from
  these lemmas.
\<close>

text \<open>
  The sizes of the bulk inserts: none is empty, a summary insert carries at most 100 rows
  and a record-table insert at most 200.
\<close>

definition insert_ok :: "effect \<Rightarrow> bool" where
  "insert_ok e =
     (case e of
        InsertAll t rows o' \<Rightarrow>
          rows \<noteq> [] \<and>
          (if t = ''activity_summary'' then length rows \<le> 100
           else if record_table t then length rows \<le> 200 else True)
      | _ \<Rightarrow> True)"

section \<open>Lemmas\<close>

lemma conv_run_invariants:
  assumes "conv_run env h s items = Inr s'" and "seq_inv s" and "fk_from h [] (db_log s)"
  shows "seq_inv s' \<and> fk_from h [] (db_log s') \<and>
         length (inserts_to ''workouts'' (db_log s')) =
           length (inserts_to ''workouts'' (db_log s)) + length (tagged ''Workout'' (yields items))"
  using assms
proof (induction items arbitrary: s)
  case Nil
  then show ?case by simp
next
  case (Cons it its)
  from Cons.prems obtain s1 where st: "conv_step env h s it = Inr s1"
    and run: "conv_run env h s1 its = Inr s'" by (auto split: sum.splits)
  from conv_step_seq [OF st Cons.prems(2)] have A: "seq_inv s1"
    "length (inserts_to ''workouts'' (db_log s1)) =
       length (inserts_to ''workouts'' (db_log s)) + length (tagged ''Workout'' (yields [it]))" by auto
  from conv_step_fk(1) [OF Cons.prems(3) st] have B: "fk_from h [] (db_log s1)" .
  from Cons.IH [OF run A(1) B] A(2) show ?case by (simp add: yields_Cons_split [of it its])
qed

lemma conv_run_invariants_Inl:
  assumes "conv_run env h s items = Inl (e, l)" and "seq_inv s" and "fk_from h [] (db_log s)"
  shows "seq_ok l \<and> fk_from h [] l"
  using assms
proof (induction items arbitrary: s)
  case Nil
  then show ?case by simp
next
  case (Cons it its)
  show ?case
  proof (cases "conv_step env h s it")
    case (Inl err)
    with Cons.prems obtain "err = (e, l)" by simp
    with Inl Cons.prems conv_step_seq_Inl conv_step_fk(2) show ?thesis by blast
  next
    case (Inr s1)
    with Cons.prems have run: "conv_run env h s1 its = Inl (e, l)" by simp
    from conv_step_seq [OF Inr Cons.prems(2)] conv_step_fk(1) [OF Cons.prems(3) Inr]
    have "seq_inv s1" "fk_from h [] (db_log s1)" by auto
    with run show ?thesis by (rule Cons.IH)
  qed
qed

lemma conv_finish_Inl: "conv_finish cb s = Inl (e, l) \<Longrightarrow> l = db_log s"
  by (auto simp: conv_finish_def Let_def split: if_splits sum.splits dest: write_records_Inl)

lemma conv_finish_Inr:
  assumes "conv_finish cb s = Inr l"
  shows "batches_to ''activity_summary'' l =
           batches_to ''activity_summary'' (db_log s) @
             (if activity_summaries s \<noteq> [] then [activity_summaries s] else []) \<and>
         record_inserts l =
           record_inserts (db_log s) @ (if records s \<noteq> [] then record_inserts_of (records s) else []) \<and>
         inserts_to ''workouts'' l = inserts_to ''workouts'' (db_log s) \<and>
         progress_of l = progress_of (db_log s) @ (if cb then [sys_maxsize] else []) \<and>
         (fk_from h [] (db_log s) \<longrightarrow> fk_from h [] l)"
proof -
  obtain l1 where l1: "(if records s \<noteq> [] then write_records (records s) (db_log s) else Inr (db_log s)) = Inr l1"
    and l: "l = (let l' = (if activity_summaries s \<noteq> []
                 then l1 @ [InsertAll ''activity_summary'' (activity_summaries s) default_opts] else l1)
                 in if cb then l' @ [Progress sys_maxsize] else l')"
    using assms by (auto simp: conv_finish_def Let_def split: sum.splits)
  have p1: "batches_to ''activity_summary'' l1 = batches_to ''activity_summary'' (db_log s) \<and>
            record_inserts l1 = record_inserts (db_log s) @ (if records s \<noteq> [] then record_inserts_of (records s) else []) \<and>
            inserts_to ''workouts'' l1 = inserts_to ''workouts'' (db_log s) \<and>
            progress_of l1 = progress_of (db_log s) \<and>
            (fk_from h [] (db_log s) \<longrightarrow> fk_from h [] l1)"
  proof (cases "records s \<noteq> []")
    case True
    with l1 have w: "write_records (records s) (db_log s) = Inr l1" by simp
    from record_only_log [OF w] fk_write_records [OF w] True show ?thesis by simp
  next
    case False
    with l1 show ?thesis by simp
  qed
  with l show ?thesis by (auto simp: Let_def fk_from_append)
qed

lemma seq_ok_finish: "conv_finish cb s = Inr l \<Longrightarrow> seq_ok (db_log s) \<Longrightarrow> seq_ok l"
  by (drule conv_finish_Inr [where h = "\<lambda>_. []"]) (simp add: seq_ok_def)

lemma starts_with_end_raises:
  "starts_with_end (parser_events feed p cs) \<Longrightarrow> snd (find_all_chunks feed tags cb p None cs) \<noteq> None"
proof (induction cs arbitrary: p)
  case Nil
  then show ?case by (simp add: starts_with_end_def)
next
  case (Cons c cs)
  obtain p' evs where fd: "feed p c = (p', evs)" by fastforce
  show ?case
  proof (cases evs)
    case Nil
    with Cons.prems fd have "starts_with_end (parser_events feed p' cs)" by simp
    from Cons.IH [OF this] fd Nil show ?thesis by (simp add: prod.case_eq_if split: option.splits)
  next
    case (Cons ev evs')
    with Cons.prems fd obtain e where "ev = EvEnd e"
      by (auto simp: starts_with_end_def split: xml_event.splits)
    with Cons fd show ?thesis by (simp add: Let_def)
  qed
qed

lemma find_all_tags_no_error_ok:
  assumes "snd (find_all_tags feed p0 fp tags cb) = None"
  shows "stream_ok (parser_events feed p0 (read_chunks chunk_size fp))"
proof -
  from assms have "snd (find_all_chunks feed tags cb p0 None (read_chunks chunk_size fp)) = None"
    by (simp add: find_all_tags_def)
  with find_all_chunks_raises [of feed p0 "read_chunks chunk_size fp" tags cb None]
    starts_with_end_raises [of feed p0 "read_chunks chunk_size fp" tags cb]
  show ?thesis by (auto simp: stream_ok_def)
qed

lemma read_chunks_concat_full:
  assumes "0 < n" and "\<forall>f \<in> set F. length f = n" and "length buf < n"
  shows "read_chunks n (concat F @ buf) = F @ (if buf = [] then [] else [buf])"
  using assms(2)
proof (induction F)
  case Nil
  from assms(3) show ?case by (auto intro: read_chunks_single)
next
  case (Cons f F)
  with assms(1) show ?case by (subst read_chunks_Cons_iff) auto
qed

lemma tagged_end_matches:
  "t \<in> tags \<Longrightarrow> tagged t (map (\<lambda>e. (el_tag e, e)) (end_matches tags evs)) = end_matches {t} evs"
  by (induction evs) (auto simp: tagged_def end_matches_def split: xml_event.splits)

lemma conv_run_preserves:
  assumes step: "\<And>s it s'. Q s \<Longrightarrow> I it \<Longrightarrow> conv_step env h s it = Inr s' \<Longrightarrow> Q s'"
    and fail: "\<And>s it e l. Q s \<Longrightarrow> I it \<Longrightarrow> conv_step env h s it = Inl (e, l) \<Longrightarrow> R l"
    and "list_all I items" and "Q s"
  shows "(\<forall>s'. conv_run env h s items = Inr s' \<longrightarrow> Q s') \<and> (\<forall>e l. conv_run env h s items = Inl (e, l) \<longrightarrow> R l)"
  using assms(3,4)
proof (induction items arbitrary: s)
  case (Cons it its)
  show ?case
  proof (cases "conv_step env h s it")
    case (Inl err)
    with Cons.prems fail show ?thesis by (cases err) auto
  next
    case (Inr s1)
    from Cons.prems have "Q s" "I it" by simp_all
    from step [OF this Inr] have "Q s1" .
    with Cons.IH Cons.prems Inr show ?thesis by simp
  qed
qed simp

lemma convert_preserves:
  assumes step: "\<And>s it s'. Q s \<Longrightarrow> I it \<Longrightarrow> conv_step env h s it = Inr s' \<Longrightarrow> Q s'"
    and fail: "\<And>s it e l. Q s \<Longrightarrow> I it \<Longrightarrow> conv_step env h s it = Inl (e, l) \<Longrightarrow> R l"
    and items: "list_all I (fst (find_all_tags feed p0 fp convert_tags cb))"
    and init: "Q conv_init"
    and stop: "\<And>s. Q s \<Longrightarrow> R (db_log s)"
    and fin: "\<And>s l. Q s \<Longrightarrow> conv_finish cb s = Inr l \<Longrightarrow> R l"
  shows "R (outcome_log (convert_xml_to_sqlite feed p0 env h fp cb))"
proof -
  obtain items gerr where fa: "find_all_tags feed p0 fp convert_tags cb = (items, gerr)" by fastforce
  with items have its: "list_all I items" by simp
  have run: "(\<forall>s'. conv_run env h conv_init items = Inr s' \<longrightarrow> Q s') \<and>
             (\<forall>e l. conv_run env h conv_init items = Inl (e, l) \<longrightarrow> R l)"
    using step fail its init by (rule conv_run_preserves)
  have cv: "convert_xml_to_sqlite feed p0 env h fp cb =
      (case conv_run env h conv_init items of
         Inl err \<Rightarrow> Inl err
       | Inr s \<Rightarrow> (case gerr of Some e \<Rightarrow> Inl (e, db_log s) | None \<Rightarrow> conv_finish cb s))"
    by (simp add: convert_xml_to_sqlite_def fa)
  show ?thesis
  proof (cases "conv_run env h conv_init items")
    case (Inl err)
    then obtain e l where r: "conv_run env h conv_init items = Inl (e, l)" by (cases err) simp
    with run have "R l" by blast
    with cv r show ?thesis by (simp add: outcome_log_def)
  next
    case (Inr s)
    with run have s: "Q s" by blast
    show ?thesis
    proof (cases gerr)
      case (Some e)
      with cv Inr stop [OF s] show ?thesis by (simp add: outcome_log_def)
    next
      case None
      show ?thesis
      proof (cases "conv_finish cb s")
        case (Inl err)
        then obtain e l where f: "conv_finish cb s = Inl (e, l)" by (cases err) simp
        from conv_finish_Inl [OF f] stop [OF s] have "R l" by simp
        with cv Inr None f show ?thesis by (simp add: outcome_log_def)
      next
        case (Inr l)
        from fin [OF s Inr] cv \<open>conv_run env h conv_init items = Inr s\<close> None Inr show ?thesis
          by (simp add: outcome_log_def)
      qed
    qed
  qed
qed

lemma convert_Inr:
  assumes "convert_xml_to_sqlite feed p0 env h fp cb = Inr l"
  shows "stream_ok (parser_events feed p0 (read_chunks chunk_size fp)) \<and>
         (\<exists>s. conv_run env h conv_init (gen_reference feed convert_tags cb p0 (read_chunks chunk_size fp)) = Inr s \<and>
              conv_finish cb s = Inr l)"
proof -
  obtain items gerr where fa: "find_all_tags feed p0 fp convert_tags cb = (items, gerr)" by fastforce
  with assms obtain s where run: "conv_run env h conv_init items = Inr s" and g: "gerr = None"
    and fin: "conv_finish cb s = Inr l"
    by (auto simp: convert_xml_to_sqlite_def split: sum.splits option.splits)
  from fa g have ok: "stream_ok (parser_events feed p0 (read_chunks chunk_size fp))"
    by (intro find_all_tags_no_error_ok [where tags = convert_tags and cb = cb]) simp
  from find_all_tags_ok_eq [OF ok, of convert_tags cb] fa g
  have "items = gen_reference feed convert_tags cb p0 (read_chunks chunk_size fp)" by simp
  with ok run fin show ?thesis by blast
qed

lemma convert_invariants:
  "seq_ok (outcome_log (convert_xml_to_sqlite feed p0 env h fp cb)) \<and>
   fk_from h [] (outcome_log (convert_xml_to_sqlite feed p0 env h fp cb))"
proof -
  have i0: "seq_inv conv_init" "fk_from h [] (db_log conv_init)"
    by (simp_all add: seq_inv_init) (simp add: conv_init_def)
  obtain items gerr where fa: "find_all_tags feed p0 fp convert_tags cb = (items, gerr)" by fastforce
  show ?thesis
  proof (cases "conv_run env h conv_init items")
    case (Inl err)
    then obtain e l where "conv_run env h conv_init items = Inl (e, l)" by (cases err) simp
    with conv_run_invariants_Inl [OF this i0] fa show ?thesis
      by (simp add: convert_xml_to_sqlite_def outcome_log_def)
  next
    case (Inr s)
    from conv_run_invariants [OF Inr i0] have s: "seq_ok (db_log s)" "fk_from h [] (db_log s)"
      by (simp_all add: seq_inv_def)
    show ?thesis
    proof (cases gerr)
      case None
      show ?thesis
      proof (cases "conv_finish cb s")
        case (Inl err)
        then obtain e l where f: "conv_finish cb s = Inl (e, l)" by (cases err) simp
        with conv_finish_Inl [OF f] s fa Inr None show ?thesis
          by (simp add: convert_xml_to_sqlite_def outcome_log_def)
      next
        case (Inr l)
        with seq_ok_finish [OF Inr s(1)] conv_finish_Inr [OF Inr, of h] s fa \<open>conv_run env h conv_init items = Inr s\<close> None
        show ?thesis by (simp add: convert_xml_to_sqlite_def outcome_log_def)
      qed
    qed (use fa Inr s in \<open>simp add: convert_xml_to_sqlite_def outcome_log_def\<close>)
  qed
qed

lemma record_rows_appendE:
  "record_rows (xs @ ys) = Inr RS \<Longrightarrow> \<exists>RS1 RS2. record_rows xs = Inr RS1 \<and> record_rows ys = Inr RS2 \<and> RS = RS1 @ RS2"
  by (induction xs arbitrary: RS) (auto split: sum.splits)

lemma conv_step_ok:
  assumes "record_rows (tagged ''Record'' (yields [it])) = Inr RS"
    and "\<forall>r \<in> set (records s @ RS). typed_row r"
    and "\<forall>w \<in> set (tagged ''Workout'' (yields [it])). \<forall>v l. \<exists>l'. workout_to_db env h (el_set w ''seq'' v) l = Inr l'"
  shows "\<exists>s'. conv_step env h s it = Inr s' \<and> (\<forall>r \<in> set (records s'). typed_row r)"
proof (cases it)
  case (Callback n)
  with assms(2) show ?thesis by simp
next
  case (Yield t el)
  show ?thesis
  proof (cases "t = ''Record''")
    case True
    with assms(1) Yield obtain r where r: "record_row el = Inr r" and RS: "RS = [r]"
      by (auto split: sum.splits)
    from assms(2) RS have typed: "\<forall>x \<in> set (records s @ [r]). typed_row x" by simp
    then obtain l' where "write_records (records s @ [r]) (db_log s) = Inr l'"
      using write_records_typed by blast
    with typed True Yield r show ?thesis by (auto simp: handle_element_def Let_def)
  next
    case False
    show ?thesis
    proof (cases "t = ''Workout''")
      case True
      with assms(3) Yield obtain l' where
        "workout_to_db env h (el_set el ''seq'' (PInt (workout_id s))) (db_log s) = Inr l'" by fastforce
      with assms(2) True Yield show ?thesis by (simp add: handle_element_def)
    next
      case False
      with \<open>t \<noteq> ''Record''\<close> assms(2) Yield show ?thesis by (simp add: handle_element_def Let_def)
    qed
  qed
qed

lemma conv_run_ok:
  assumes "record_rows (tagged ''Record'' (yields items)) = Inr RS"
    and "\<forall>r \<in> set (records s @ RS). typed_row r"
    and "\<forall>w \<in> set (tagged ''Workout'' (yields items)). \<forall>v l. \<exists>l'. workout_to_db env h (el_set w ''seq'' v) l = Inr l'"
  shows "\<exists>s'. conv_run env h s items = Inr s' \<and> (\<forall>r \<in> set (records s'). typed_row r)"
  using assms
proof (induction items arbitrary: s RS)
  case Nil
  then show ?case by simp
next
  case (Cons it its)
  from Cons.prems(1) obtain RS1 RS2 where R: "record_rows (tagged ''Record'' (yields [it])) = Inr RS1"
    "record_rows (tagged ''Record'' (yields its)) = Inr RS2" "RS = RS1 @ RS2"
    by (subst (asm) yields_Cons_split) (auto dest: record_rows_appendE)
  from Cons.prems(2,3) R(3) have "\<forall>r \<in> set (records s @ RS1). typed_row r"
    "\<forall>w \<in> set (tagged ''Workout'' (yields [it])). \<forall>v l. \<exists>l'. workout_to_db env h (el_set w ''seq'' v) l = Inr l'"
    by (auto simp: yields_Cons_split [of it its])
  from conv_step_ok [OF R(1) this] obtain s1 where s1: "conv_step env h s it = Inr s1"
    "\<forall>r \<in> set (records s1). typed_row r" by blast
  from Cons.prems(2,3) R(3) s1(2) have "\<forall>r \<in> set (records s1 @ RS2). typed_row r"
    "\<forall>w \<in> set (tagged ''Workout'' (yields its)). \<forall>v l. \<exists>l'. workout_to_db env h (el_set w ''seq'' v) l = Inr l'"
    by (auto simp: yields_Cons_split [of it its])
  from Cons.IH [OF R(2) this] s1(1) show ?case by simp
qed

lemma conv_finish_ok: "\<forall>r \<in> set (records s). typed_row r \<Longrightarrow> \<exists>l. conv_finish cb s = Inr l"
  by (auto simp: conv_finish_def Let_def dest!: write_records_typed [where l = "db_log s"] split: sum.splits)

lemma chunk_size_lt_maxsize: "int chunk_size < sys_maxsize"
  by (simp add: chunk_size_def sys_maxsize_def)

lemma conv_step_progress_Inl:
  assumes "conv_step env h s it = Inl (e, l)"
  shows "progress_of l = progress_of (db_log s)"
proof (cases it)
  case (Yield t el)
  with assms have "handle_element env h s t el = Inl (e, l)" by simp
  then show ?thesis
  proof (cases rule: handle_element_InlE)
    case workout
    from workout_to_db_Inl [OF workout(2)] show ?thesis by auto
  qed simp
qed (use assms in simp)

lemma conv_run_progress_Inl:
  "conv_run env h s items = Inl (e, l) \<Longrightarrow>
   \<exists>j. progress_of l = progress_of (db_log s) @ map int (take j (callbacks items))"
proof (induction items arbitrary: s)
  case Nil
  then show ?case by simp
next
  case (Cons it its)
  show ?case
  proof (cases "conv_step env h s it")
    case (Inl err)
    with Cons.prems have "conv_step env h s it = Inl (e, l)" by simp
    from conv_step_progress_Inl [OF this] have "progress_of l = progress_of (db_log s) @ map int (take 0 (callbacks (it # its)))"
      by simp
    then show ?thesis ..
  next
    case (Inr s1)
    with Cons.prems have "conv_run env h s1 its = Inl (e, l)" by simp
    from Cons.IH [OF this] obtain j where j: "progress_of l = progress_of (db_log s1) @ map int (take j (callbacks its))" ..
    from conv_step_progress [OF Inr] have s1: "progress_of (db_log s1) = progress_of (db_log s) @ map int (callbacks [it])" .
    have "progress_of l = progress_of (db_log s) @ map int (take (length (callbacks [it]) + j) (callbacks (it # its)))"
      using j s1 by (subst callbacks_Cons_split) simp
    then show ?thesis ..
  qed
qed

lemma convert_progress_prefix:
  "\<exists>k. progress_of (outcome_log (convert_xml_to_sqlite feed p0 env h fp cb)) =
         (if cb then map (\<lambda>c. int (length c)) (take k (read_chunks chunk_size fp)) else []) @
         (case convert_xml_to_sqlite feed p0 env h fp cb of Inl _ \<Rightarrow> [] | Inr _ \<Rightarrow> if cb then [sys_maxsize] else [])"
proof -
  obtain items gerr where fa: "find_all_tags feed p0 fp convert_tags cb = (items, gerr)" by fastforce
  from find_all_chunks_callbacks [of feed convert_tags cb p0 None "read_chunks chunk_size fp"] fa
  obtain k where k: "callbacks items = (if cb then map length (take k (read_chunks chunk_size fp)) else [])"
    by (auto simp: find_all_tags_def)
  have p0: "progress_of (db_log conv_init) = []" by (simp add: conv_init_def)
  show ?thesis
  proof (cases "conv_run env h conv_init items")
    case (Inl err)
    then obtain e l where run: "conv_run env h conv_init items = Inl (e, l)" by (cases err) simp
    from conv_run_progress_Inl [OF run] p0 obtain j where j: "progress_of l = map int (take j (callbacks items))" by auto
    have "progress_of l = (if cb then map (\<lambda>c. int (length c)) (take (min j k) (read_chunks chunk_size fp)) else [])"
      using j k by (simp add: take_map min.commute)
    with run fa show ?thesis by (auto simp: convert_xml_to_sqlite_def outcome_log_def comp_def)
  next
    case (Inr s)
    from conv_run_progress [OF Inr] p0 have ps: "progress_of (db_log s) = map int (callbacks items)" by simp
    show ?thesis
    proof (cases gerr)
      case (Some e)
      with Inr fa ps k show ?thesis by (auto simp: convert_xml_to_sqlite_def outcome_log_def comp_def)
    next
      case None
      show ?thesis
      proof (cases "conv_finish cb s")
        case (Inl err)
        then obtain e l where "conv_finish cb s = Inl (e, l)" by (cases err) simp
        with conv_finish_Inl [OF this] Inr None fa ps k show ?thesis
          by (auto simp: convert_xml_to_sqlite_def outcome_log_def comp_def)
      next
        case (Inr l)
        with conv_finish_Inr [OF Inr, of h] \<open>conv_run env h conv_init items = Inr s\<close> None fa ps k show ?thesis
          by (auto simp: convert_xml_to_sqlite_def outcome_log_def comp_def)
      qed
    qed
  qed
qed

lemma record_inserts_of_sizes:
  assumes "InsertAll t rows o' \<in> set (record_inserts_of rs)"
  shows "rows \<noteq> [] \<and> length rows \<le> length rs \<and> record_table t"
proof (cases "pop_all rs")
  case (Inl err)
  with assms show ?thesis by (simp add: record_inserts_of_def)
next
  case (Inr ps)
  with assms have t: "t \<in> set (map fst ps)" and rows: "rows = vals_of t ps"
    by (auto simp: record_inserts_of_def group_spec_def)
  from t obtain r where tr: "(t, r) \<in> set ps" by auto
  then have "rows \<noteq> []" using rows by (force simp: vals_of_def filter_empty_conv)
  moreover have "length rows \<le> length rs" using rows vals_of_length pop_all_length [OF Inr] by metis
  moreover from Inr tr have "record_table t" by (rule pop_all_tables)
  ultimately show ?thesis by blast
qed

lemma record_inserts_of_ok:
  "rs \<noteq> [] \<Longrightarrow> length rs \<le> 200 \<Longrightarrow> list_all insert_ok (record_inserts_of rs)"
proof (unfold list_all_iff, intro ballI)
  fix e assume rs: "length rs \<le> 200" and e: "e \<in> set (record_inserts_of rs)"
  from record_inserts_of_record [OF e] obtain t rows o' where ei: "e = InsertAll t rows o'" and "record_table t"
    by (cases e) (auto simp: is_record_insert_def)
  with record_inserts_of_sizes [of t rows o' rs] e rs show "insert_ok e"
    by (auto simp: insert_ok_def record_table_def)
qed

lemma insert_ok_simps [simp]:
  "insert_ok (Insert t r o') = True" "insert_ok (OpenFile p) = True" "insert_ok (Progress n) = True"
  "insert_ok (InsertAll ''activity_summary'' rows o') = (rows \<noteq> [] \<and> length rows \<le> 100)"
  "insert_ok (InsertAll ''workout_points'' rows o') = (rows \<noteq> [])"
  by (simp_all add: insert_ok_def record_table_def)

lemma workout_to_db_inserts_ok:
  "workout_to_db env h w l = Inr l' \<Longrightarrow> list_all insert_ok l \<Longrightarrow> list_all insert_ok l'"
  by (drule workout_to_db_Inr) (auto simp: insert_points_def list_all_iff split: if_splits)

lemma workout_to_db_inserts_ok_Inl:
  "workout_to_db env h w l = Inl (e, l') \<Longrightarrow> list_all insert_ok l \<Longrightarrow> list_all insert_ok l'"
  by (drule workout_to_db_Inl) (auto simp: list_all_iff)

lemma conv_step_inserts_ok:
  assumes "conv_step env h s it = Inr s'" and "length (activity_summaries s) < 100"
    and "length (records s) < 200" and "list_all insert_ok (db_log s)"
  shows "list_all insert_ok (db_log s')"
proof (cases it)
  case (Yield t el)
  with assms(1) have "handle_element env h s t el = Inr s'" by simp
  then show ?thesis
  proof (cases rule: handle_element_InrE)
    case sum_flush
    with assms(2,4) show ?thesis by simp
  next
    case (workout l)
    with assms(4) workout_to_db_inserts_ok show ?thesis by simp
  next
    case (rec_flush r l)
    from write_records_Inr [OF rec_flush(4)] have "l = db_log s @ record_inserts_of (records s @ [r])" .
    with rec_flush(5) assms(3,4) record_inserts_of_ok [of "records s @ [r]"] show ?thesis by simp
  qed (use assms in simp_all)
qed (use assms in auto)

lemma conv_step_inserts_ok_Inl:
  assumes "conv_step env h s it = Inl (e, l)" and "list_all insert_ok (db_log s)"
  shows "list_all insert_ok l"
proof (cases it)
  case (Yield t el)
  with assms(1) have "handle_element env h s t el = Inl (e, l)" by simp
  then show ?thesis
  proof (cases rule: handle_element_InlE)
    case workout
    from workout_to_db_inserts_ok_Inl [OF workout(2) assms(2)] show ?thesis .
  qed (use assms in simp)
qed (use assms in simp)

lemma conv_step_bounds:
  assumes "conv_step env h s it = Inr s'" and "length (activity_summaries s) < 100" and "length (records s) < 200"
  shows "length (activity_summaries s') < 100 \<and> length (records s') < 200"
proof
  from conv_step_summaries [OF assms(1,2)] show "length (activity_summaries s') < 100" by (elim exE conjE)
  from conv_step_records [OF assms(1,3)] show "length (records s') < 200" by (elim exE conjE)
qed

lemma conv_finish_inserts_ok:
  assumes "conv_finish cb s = Inr l" and "length (activity_summaries s) < 100"
    and "length (records s) < 200" and "list_all insert_ok (db_log s)"
  shows "list_all insert_ok l"
proof -
  obtain l1 where l1: "(if records s \<noteq> [] then write_records (records s) (db_log s) else Inr (db_log s)) = Inr l1"
    and l: "l = (let l' = (if activity_summaries s \<noteq> []
                 then l1 @ [InsertAll ''activity_summary'' (activity_summaries s) default_opts] else l1)
                 in if cb then l' @ [Progress sys_maxsize] else l')"
    using assms(1) by (auto simp: conv_finish_def Let_def split: sum.splits)
  have "list_all insert_ok l1"
  proof (cases "records s \<noteq> []")
    case True
    with l1 have "l1 = db_log s @ record_inserts_of (records s)" by (simp add: write_records_Inr)
    with True assms(3,4) record_inserts_of_ok [of "records s"] show ?thesis by simp
  next
    case False
    with l1 assms(4) show ?thesis by simp
  qed
  with l assms(2) show ?thesis by (simp add: Let_def)
qed

text \<open>On success the summaries are written in document order, in batches of 100 and a last shorter one.\<close>

lemma summary_batches_Inr:
  assumes "convert_xml_to_sqlite feed p0 env h fp cb = Inr l"
  shows "batches_to ''activity_summary'' l =
           read_chunks 100 (map el_attrib (end_matches {''ActivitySummary''} (parser_events feed p0 (read_chunks chunk_size fp))))"
proof -
  from convert_Inr [OF assms] obtain s where
    run: "conv_run env h conv_init (gen_reference feed convert_tags cb p0 (read_chunks chunk_size fp)) = Inr s"
    and fin: "conv_finish cb s = Inr l" by blast
  from conv_run_summaries [OF run] obtain F where F: "\<forall>f \<in> set F. length f = 100"
    "map el_attrib (tagged ''ActivitySummary'' (yields (gen_reference feed convert_tags cb p0 (read_chunks chunk_size fp)))) =
       concat F @ activity_summaries s"
    "batches_to ''activity_summary'' (db_log s) = F" "length (activity_summaries s) < 100"
    by (auto simp: conv_init_def)
  from conv_finish_Inr [OF fin, of h] F read_chunks_concat_full [OF _ F(1) F(4)] show ?thesis
    by (simp add: yields_gen_reference tagged_end_matches convert_tags_def)
qed

lemma conv_finish_pop: "conv_finish cb s = Inr l \<Longrightarrow> \<exists>ps. pop_all (records s) = Inr ps"
  by (cases "records s = []") (auto simp: conv_finish_def split: sum.splits dest: write_records_pop)

lemma record_batches_Inr:
  assumes "convert_xml_to_sqlite feed p0 env h fp cb = Inr l"
  shows "\<exists>RS. record_rows (end_matches {''Record''} (parser_events feed p0 (read_chunks chunk_size fp))) = Inr RS \<and>
              record_inserts l = concat (map record_inserts_of (read_chunks 200 RS)) \<and> (\<exists>ps. pop_all RS = Inr ps)"
proof -
  from convert_Inr [OF assms] obtain s where
    run: "conv_run env h conv_init (gen_reference feed convert_tags cb p0 (read_chunks chunk_size fp)) = Inr s"
    and fin: "conv_finish cb s = Inr l" by blast
  from conv_run_records [OF run] obtain RS G where G:
    "record_rows (tagged ''Record'' (yields (gen_reference feed convert_tags cb p0 (read_chunks chunk_size fp)))) = Inr RS"
    "\<forall>g \<in> set G. length g = 200" "RS = concat G @ records s"
    "record_inserts (db_log s) = concat (map record_inserts_of G)" "length (records s) < 200"
    "\<forall>g \<in> set G. \<exists>ps. pop_all g = Inr ps"
    by (auto simp: conv_init_def record_inserts_def)
  from pop_all_concat_ok [OF G(6)] conv_finish_pop [OF fin] G(3) have "\<exists>ps. pop_all RS = Inr ps"
    by (auto simp: pop_all_append)
  with conv_finish_Inr [OF fin, of h] G read_chunks_concat_full [OF _ G(2) G(5)] show ?thesis
    by (simp add: yields_gen_reference tagged_end_matches convert_tags_def)
qed

text \<open>Every bulk insert of a run is non-empty and within its flush size.\<close>

lemma convert_inserts_ok: "list_all insert_ok (outcome_log (convert_xml_to_sqlite feed p0 env h fp cb))"
proof (rule convert_preserves [where I = "\<lambda>_. True"
    and Q = "\<lambda>s. length (activity_summaries s) < 100 \<and> length (records s) < 200 \<and> list_all insert_ok (db_log s)"])
  fix s it s' assume q: "length (activity_summaries s) < 100 \<and> length (records s) < 200 \<and> list_all insert_ok (db_log s)"
    and st: "conv_step env h s it = Inr s'"
  from q have b: "length (activity_summaries s) < 100" "length (records s) < 200" "list_all insert_ok (db_log s)"
    by simp_all
  from conv_step_bounds [OF st b(1,2)] conv_step_inserts_ok [OF st b]
  show "length (activity_summaries s') < 100 \<and> length (records s') < 200 \<and> list_all insert_ok (db_log s')"
    by simp
next
  fix s it e l assume q: "length (activity_summaries s) < 100 \<and> length (records s) < 200 \<and> list_all insert_ok (db_log s)"
    and st: "conv_step env h s it = Inl (e, l)"
  from q have "list_all insert_ok (db_log s)" by simp
  with st show "list_all insert_ok l" by (rule conv_step_inserts_ok_Inl)
next
  show "list_all (\<lambda>_. True) (fst (find_all_tags feed p0 fp convert_tags cb))" by (simp add: list_all_iff)
next
  show "length (activity_summaries conv_init) < 100 \<and> length (records conv_init) < 200 \<and>
        list_all insert_ok (db_log conv_init)" by (simp add: conv_init_def)
next
  fix s assume "length (activity_summaries s) < 100 \<and> length (records s) < 200 \<and> list_all insert_ok (db_log s)"
  then show "list_all insert_ok (db_log s)" by simp
next
  fix s l assume q: "length (activity_summaries s) < 100 \<and> length (records s) < 200 \<and> list_all insert_ok (db_log s)"
    and f: "conv_finish cb s = Inr l"
  from q have b: "length (activity_summaries s) < 100" "length (records s) < 200" "list_all insert_ok (db_log s)"
    by simp_all
  from f b show "list_all insert_ok l" by (rule conv_finish_inserts_ok)
qed

lemma gen_reference_no_matches:
  "end_matches tags (parser_events feed p cs) = [] \<Longrightarrow>
   gen_reference feed tags cb p cs = (if cb then map (\<lambda>c. Callback (length c)) cs else [])"
  by (induction cs arbitrary: p) (auto split: prod.splits)

lemma conv_run_callbacks:
  "conv_run env h s (map Callback ns) = Inr (s\<lparr>db_log := db_log s @ map (\<lambda>n. Progress (int n)) ns\<rparr>)"
  by (induction ns arbitrary: s) simp_all

lemma batches_to_summary_size:
  "list_all insert_ok l \<Longrightarrow> S \<in> set (batches_to ''activity_summary'' l) \<Longrightarrow> length S \<le> 100"
  by (induction "''activity_summary''" l rule: batches_to.induct) (auto simp: insert_ok_def split: if_splits)

end
