(* ===== verification/Row_Shapes.thy ===== *)
theory Row_Shapes
  imports Conversion_Runs
begin

text \<open>
  The shape of the rows the converter writes. A Python dict has distinct keys; the model's
  dicts are association lists, and \<open>dict_ok\<close> says that one has distinct keys. The parser
  gives every element an attribute dict with distinct keys (\<open>el_ok\<close>, for the element and
  all its descendants), and gpxpy's \<open>vars()\<close> dicts have distinct keys too. Under these
  two assumptions every row the run writes is a dict with distinct keys, and no row written
  to a record table has a \<open>type\<close> key (\<open>row_ok\<close>). \<open>rows_inv\<close> is the corresponding
  invariant of the loop state, buffers included.
\<close>

text \<open>An element whose attribute dicts, its own and its descendants', have distinct keys.\<close>

fun el_ok :: "element \<Rightarrow> bool" where
  "el_ok (Element t a cs) = (dict_ok a \<and> list_all el_ok cs)"

fun ev_ok :: "xml_event \<Rightarrow> bool" where
  "ev_ok (EvEnd e) = el_ok e"
| "ev_ok _ = True"

text \<open>A call whose rows are dicts with distinct keys, none with \<open>type\<close> in a record table.\<close>

definition row_ok :: "effect \<Rightarrow> bool" where
  "row_ok e =
     (case e of
        Insert t r o' \<Rightarrow> dict_ok r
      | InsertAll t rows o' \<Rightarrow>
          list_all dict_ok rows \<and>
          (if record_table t then list_all (\<lambda>r. ''type'' \<notin> set (dict_keys r)) rows else True)
      | _ \<Rightarrow> True)"

text \<open>The track-point collaborator returns dicts with distinct keys.\<close>

abbreviation gpx_rows_ok :: "side_env \<Rightarrow> bool" where
  "gpx_rows_ok env \<equiv> \<forall>doc pts. gpx_walk env doc = Some pts \<longrightarrow> list_all dict_ok pts"

definition rows_inv :: "conv_state \<Rightarrow> bool" where
  "rows_inv s \<longleftrightarrow> list_all row_ok (db_log s) \<and> list_all dict_ok (activity_summaries s) \<and> list_all dict_ok (records s)"

section \<open>Lemmas\<close>

lemma row_ok_simps [simp]: "row_ok (OpenFile p)" "row_ok (Progress n)" "row_ok (Insert t r o') = dict_ok r"
  by (simp_all add: row_ok_def)

lemma map_OpenFile_rows_ok [simp]: "list_all row_ok (map OpenFile ps)"
  by (simp add: list_all_iff row_ok_def)

lemma el_ok_attrib: "el_ok e \<Longrightarrow> dict_ok (el_attrib e)"
  by (cases e) simp

lemma el_ok_children: "el_ok e \<Longrightarrow> c \<in> set (el_children e) \<Longrightarrow> el_ok c"
  by (cases e) (simp add: list_all_iff)

lemma el_ok_el_set: "el_ok e \<Longrightarrow> el_ok (el_set e k v)"
  by (cases e) (simp add: el_set_def)

lemma el_ok_fold_children:
  "list_all el_ok es \<Longrightarrow> list_all el_ok (fold children_tagged path es)"
proof (induction path arbitrary: es)
  case (Cons t path)
  have "list_all el_ok (children_tagged t es)"
    using Cons.prems by (auto simp: children_tagged_def list_all_iff intro: el_ok_children)
  then show ?case by (simp add: Cons.IH)
qed simp

lemma el_ok_findall: "el_ok e \<Longrightarrow> c \<in> set (findall e path) \<Longrightarrow> el_ok c"
  using el_ok_fold_children [of "[e]" path] by (simp add: findall_def list_all_iff)

lemma record_row_ok: "el_ok el \<Longrightarrow> record_row el = Inr r \<Longrightarrow> dict_ok r"
  by (auto simp: record_row_def intro: add_metadata_dict_ok el_ok_attrib)

lemma workout_record_ok:
  assumes "el_ok w" and "workout_record w = Inr r"
  shows "dict_ok r"
proof -
  from assms(2) obtain r0 where md: "add_metadata (el_attrib w) (findall w [''MetadataEntry'']) = Inr r0"
    and r: "r = dict_set r0 ''workout_events'' (PList (map (\<lambda>ev. PDict (el_attrib ev)) (findall w [''WorkoutEvent''])))"
    by (auto simp: workout_record_def split: sum.splits)
  from add_metadata_dict_ok [OF md el_ok_attrib [OF assms(1)]] r show ?thesis by simp
qed

lemma record_inserts_of_rows_ok:
  assumes "list_all dict_ok rs"
  shows "list_all row_ok (record_inserts_of rs)"
proof (cases "pop_all rs")
  case (Inl err)
  then show ?thesis by (simp add: record_inserts_of_def)
next
  case (Inr ps)
  have "dict_ok r' \<and> ''type'' \<notin> set (dict_keys r')" if "(t, r') \<in> set ps" for t r'
  proof -
    from pop_all_Inr [OF Inr that] obtain r ty where "r \<in> set rs" "pop_type r = Inr (ty, r')" by blast
    with assms pop_type_keys show ?thesis by (fastforce simp: list_all_iff)
  qed
  with Inr show ?thesis
    by (fastforce simp: record_inserts_of_def row_ok_def list_all_iff dest: group_spec_member)
qed

lemma load_gpx_points_ok:
  "load_gpx_points env pk paths pts l = Inr (pts', l') \<Longrightarrow> gpx_rows_ok env \<Longrightarrow> list_all dict_ok pts \<Longrightarrow>
   list_all dict_ok pts'"
proof (induction env pk paths pts l rule: load_gpx_points.induct)
  case (1 env pk pts l)
  then show ?case by simp
next
  case (2 env pk path paths pts l)
  from "2.prems"(1) obtain content gpts where opn: "open_file_or_zip env path = Inr content"
    and g: "parse_gpx env content = Inr gpts"
    and rest: "load_gpx_points env pk paths (pts @ map (tag_point pk) gpts) (l @ [OpenFile path]) = Inr (pts', l')"
    by (auto split: sum.splits)
  from g "2.prems"(2) have "list_all dict_ok gpts" by (auto simp: parse_gpx_def split: option.splits)
  with "2.prems"(3) have "list_all dict_ok (pts @ map (tag_point pk) gpts)"
    by (auto simp: list_all_iff tag_point_def)
  from "2.IH" [OF opn g rest "2.prems"(2) this] show ?case .
qed

lemma load_gpx_points_log:
  "load_gpx_points env pk paths pts l = Inr (pts', l') \<Longrightarrow> \<exists>ps. l' = l @ map OpenFile ps"
  by (drule load_gpx_points_Inr) auto

lemma workout_to_db_rows_ok:
  assumes "workout_to_db env h w l = Inr l'" and "el_ok w" and "gpx_rows_ok env" and "list_all row_ok l"
  shows "list_all row_ok l'"
proof -
  from assms(1) obtain r where r: "workout_record w = Inr r" by (auto simp: workout_to_db_def split: sum.splits)
  from workout_record_ok [OF assms(2) r] have rok: "dict_ok r" .
  let ?l1 = "l @ [Insert ''workouts'' r workout_opts]"
  let ?pts = "map (\<lambda>loc. tag_point (h r) (el_attrib loc)) (findall w [''WorkoutRoute'', ''Location''])"
  have l1: "list_all row_ok ?l1" using assms(4) rok by (simp add: row_ok_def)
  have "dict_ok (el_attrib x)" if "x \<in> set (findall w [''WorkoutRoute'', ''Location''])" for x
    using el_ok_findall [OF assms(2) that] by (rule el_ok_attrib)
  then have pts: "list_all dict_ok ?pts" by (auto simp: list_all_iff tag_point_def)
  have ins: "list_all row_ok (insert_points ps l0)" if "list_all row_ok l0" "list_all dict_ok ps" for ps l0
    using that by (simp add: insert_points_def row_ok_def record_table_def)
  show ?thesis
  proof (cases "?pts \<noteq> []")
    case True
    with assms(1) r have "l' = insert_points ?pts ?l1" by (simp add: workout_to_db_def Let_def)
    with ins [OF l1 pts] show ?thesis by simp
  next
    case False
    with assms(1) r obtain paths pts' l2 where
      ld: "load_gpx_points env (h r) paths ?pts ?l1 = Inr (pts', l2)" and l': "l' = insert_points pts' l2"
      by (auto simp: workout_to_db_def Let_def split: sum.splits)
    from load_gpx_points_ok [OF ld assms(3) pts] have "list_all dict_ok pts'" .
    moreover from load_gpx_points_log [OF ld] l1 have "list_all row_ok l2" by (auto simp: row_ok_def)
    ultimately show ?thesis using l' ins by simp
  qed
qed

lemma workout_to_db_rows_ok_Inl:
  assumes "workout_to_db env h w l = Inl (e, l')" and "el_ok w" and "list_all row_ok l"
  shows "list_all row_ok l'"
  using workout_to_db_Inl [OF assms(1)]
proof
  assume "\<exists>r opens. workout_record w = Inr r \<and> l' = l @ [Insert ''workouts'' r workout_opts] @ map OpenFile opens"
  then obtain r opens where "workout_record w = Inr r" "l' = l @ [Insert ''workouts'' r workout_opts] @ map OpenFile opens"
    by blast
  with workout_record_ok [OF assms(2)] assms(3) show ?thesis by (simp add: row_ok_def)
qed (use assms in simp)

lemma conv_step_rows_inv:
  assumes "conv_step env h s it = Inr s'" and "rows_inv s" and "list_all (\<lambda>(t, e). el_ok e) (yields [it])"
    and "gpx_rows_ok env"
  shows "rows_inv s'"
proof (cases it)
  case (Yield t el)
  with assms(1,3) have he: "handle_element env h s t el = Inr s'" and el: "el_ok el" by simp_all
  from assms(2) have i: "list_all row_ok (db_log s)" "list_all dict_ok (activity_summaries s)"
    "list_all dict_ok (records s)" by (simp_all add: rows_inv_def)
  from he show ?thesis
  proof (cases rule: handle_element_InrE)
    case sum_buffer
    with i el show ?thesis by (simp add: rows_inv_def el_ok_attrib)
  next
    case sum_flush
    with i el show ?thesis by (simp add: rows_inv_def el_ok_attrib row_ok_def record_table_def)
  next
    case (workout l)
    from workout_to_db_rows_ok [OF workout(2) el_ok_el_set [OF el] assms(4) i(1)] workout(3) i
    show ?thesis by (simp add: rows_inv_def)
  next
    case (rec_buffer r)
    with i record_row_ok [OF el] show ?thesis by (simp add: rows_inv_def)
  next
    case (rec_flush r l)
    from write_records_Inr [OF rec_flush(4)] have "l = db_log s @ record_inserts_of (records s @ [r])" .
    with rec_flush i record_row_ok [OF el] record_inserts_of_rows_ok [of "records s @ [r]"]
    show ?thesis by (simp add: rows_inv_def)
  next
    case other
    with assms(2) show ?thesis by simp
  qed
qed (use assms in \<open>auto simp: rows_inv_def\<close>)

lemma conv_step_rows_inv_Inl:
  assumes "conv_step env h s it = Inl (e, l)" and "rows_inv s" and "list_all (\<lambda>(t, e). el_ok e) (yields [it])"
  shows "list_all row_ok l"
proof (cases it)
  case (Yield t el)
  with assms(1,3) have he: "handle_element env h s t el = Inl (e, l)" and el: "el_ok el" by simp_all
  from he show ?thesis
  proof (cases rule: handle_element_InlE)
    case workout
    from workout_to_db_rows_ok_Inl [OF workout(2) el_ok_el_set [OF el]] assms(2) show ?thesis
      by (simp add: rows_inv_def)
  qed (use assms in \<open>simp add: rows_inv_def\<close>)
qed (use assms in simp)

lemma process_events_yields:
  "(t, e) \<in> set (yields (fst (process_events tags root evs))) \<Longrightarrow> EvEnd e \<in> set evs"
  by (induction tags root evs rule: process_events.induct)
     (auto simp: Let_def prod.case_eq_if split: option.splits if_splits)

lemma find_all_chunks_yields:
  "(t, e) \<in> set (yields (fst (find_all_chunks feed tags cb p root cs))) \<Longrightarrow> EvEnd e \<in> set (parser_events feed p cs)"
proof (induction cs arbitrary: p root)
  case (Cons c cs)
  obtain p' evs where fd: "feed p c = (p', evs)" by fastforce
  obtain its err root' where pe: "process_events tags root evs = (its, err, root')"
    by (cases "process_events tags root evs") auto
  from Cons.prems fd pe consider "(t, e) \<in> set (yields its)"
    | "(t, e) \<in> set (yields (fst (find_all_chunks feed tags cb p' root' cs)))"
    by (cases err; cases cb) (auto simp: prod.case_eq_if)
  then show ?case
  proof cases
    case 1
    with pe process_events_yields [of t e tags root evs] fd show ?thesis by simp
  next
    case 2
    from Cons.IH [OF this] fd show ?thesis by simp
  qed
qed simp

lemma yields_member: "it \<in> set xs \<Longrightarrow> x \<in> set (yields [it]) \<Longrightarrow> x \<in> set (yields xs)"
proof (induction xs)
  case (Cons a xs)
  then show ?case by (subst yields_Cons_split) auto
qed simp

lemma find_all_tags_yields_ok:
  assumes "list_all ev_ok (parser_events feed p0 (read_chunks chunk_size fp))"
  shows "list_all (\<lambda>it. list_all (\<lambda>(t, e). el_ok e) (yields [it])) (fst (find_all_tags feed p0 fp tags cb))"
proof (unfold list_all_iff, intro ballI, clarify)
  fix it t e
  assume it: "it \<in> set (fst (find_all_tags feed p0 fp tags cb))" and te: "(t, e) \<in> set (yields [it])"
  from it te have "(t, e) \<in> set (yields (fst (find_all_tags feed p0 fp tags cb)))"
    by (rule yields_member)
  with find_all_chunks_yields [of t e feed tags cb p0 None "read_chunks chunk_size fp"]
  have "EvEnd e \<in> set (parser_events feed p0 (read_chunks chunk_size fp))"
    by (simp add: find_all_tags_def)
  with assms show "el_ok e" by (fastforce simp: list_all_iff)
qed

lemma conv_finish_rows_ok:
  assumes "conv_finish cb s = Inr l" and "rows_inv s"
  shows "list_all row_ok l"
proof -
  obtain l1 where l1: "(if records s \<noteq> [] then write_records (records s) (db_log s) else Inr (db_log s)) = Inr l1"
    and l: "l = (let l' = (if activity_summaries s \<noteq> []
                 then l1 @ [InsertAll ''activity_summary'' (activity_summaries s) default_opts] else l1)
                 in if cb then l' @ [Progress sys_maxsize] else l')"
    using assms(1) by (auto simp: conv_finish_def Let_def split: sum.splits)
  have "list_all row_ok l1"
  proof (cases "records s \<noteq> []")
    case True
    with l1 have "l1 = db_log s @ record_inserts_of (records s)" by (simp add: write_records_Inr)
    with assms(2) record_inserts_of_rows_ok [of "records s"] show ?thesis by (simp add: rows_inv_def)
  next
    case False
    with l1 assms(2) show ?thesis by (simp add: rows_inv_def)
  qed
  with l assms(2) show ?thesis by (simp add: Let_def rows_inv_def row_ok_def record_table_def)
qed

end
