(* ===== verification/Storage_Engine.thy ===== *)
theory Storage_Engine
  imports Tag_Stream
begin

text \<open>
  The storage engine, sqlite-utils, as the specification describes its interface: it
  accepts batched collections of flat records, infers a table's columns when it creates
  the table and adds columns for unseen keys only when asked to (\<open>alter=True\<close>), assigns
  a content hash as row identifier when asked to (\<open>hash_id\<close>) and returns it as
  \<open>last_pk\<close>, records declared foreign keys without enforcing them, and reports the
  conflicts it cannot resolve (an unknown column without \<open>alter\<close>, a duplicate
  identifier) as exceptions. Each batch is one transaction: the batches written before a
  failing one stay. The hash is the same function \<open>h\<close> the converter receives as
  \<open>last_pk\<close>, so a successful \<open>insert\<close> of \<open>r\<close> returns \<open>h r\<close> as the model assumes.
\<close>

datatype db_error =
    OperationalError string string  \<comment> \<open>table, the unknown column\<close>
  | IntegrityError string           \<comment> \<open>table whose identifier is already taken\<close>

record table =
  tcols :: "string list"
  trows :: "row list"

type_synonym db = "(string \<times> table) list"

text \<open>The columns of a batch, in order of first appearance, and the preferred order.\<close>

definition keys_of :: "row list \<Rightarrow> string list" where
  "keys_of rows = dedup (concat (map dict_keys rows))"

definition ordered_cols :: "string list \<Rightarrow> string list \<Rightarrow> string list" where
  "ordered_cols pref ks = filter (\<lambda>c. c \<in> set ks) pref @ filter (\<lambda>c. c \<notin> set pref) ks"

text \<open>One batch: create the table from it, or append it, extending the columns if allowed.\<close>

definition insert_chunk :: "ins_opts \<Rightarrow> string \<Rightarrow> row list \<Rightarrow> db \<Rightarrow> db_error + db" where
  "insert_chunk opts t rows d =
     (case map_of d t of
        None \<Rightarrow> Inr (dict_set d t \<lparr>tcols = ordered_cols (column_order opts) (keys_of rows), trows = rows\<rparr>)
      | Some tb \<Rightarrow>
          (let new = filter (\<lambda>c. c \<notin> set (tcols tb)) (keys_of rows) in
           if new \<noteq> [] \<and> \<not> alter opts then Inl (OperationalError t (hd new))
           else Inr (dict_set d t \<lparr>tcols = tcols tb @ new, trows = trows tb @ rows\<rparr>)))"

text \<open>The batches of one call, each committed before the next; the state reached and the error.\<close>

fun insert_chunks :: "ins_opts \<Rightarrow> string \<Rightarrow> row list list \<Rightarrow> db \<Rightarrow> db \<times> db_error option" where
  "insert_chunks opts t [] d = (d, None)"
| "insert_chunks opts t (c # cs) d =
     (case insert_chunk opts t c d of Inl e \<Rightarrow> (d, Some e) | Inr d' \<Rightarrow> insert_chunks opts t cs d')"

definition insert_all_db :: "ins_opts \<Rightarrow> string \<Rightarrow> row list \<Rightarrow> db \<Rightarrow> db \<times> db_error option" where
  "insert_all_db opts t rows d = insert_chunks opts t (read_chunks (batch_size opts) rows) d"

text \<open>\<open>insert\<close> of one row; with \<open>hash_id=k\<close> the row gets column \<open>k\<close> holding its hash.\<close>

definition rows_of :: "db \<Rightarrow> string \<Rightarrow> row list" where
  "rows_of d t = (case map_of d t of None \<Rightarrow> [] | Some tb \<Rightarrow> trows tb)"

definition insert_db :: "(row \<Rightarrow> string) \<Rightarrow> ins_opts \<Rightarrow> string \<Rightarrow> row \<Rightarrow> db \<Rightarrow> db \<times> db_error option" where
  "insert_db h opts t r d =
     (case hash_id opts of
        None \<Rightarrow> insert_chunks opts t [[r]] d
      | Some k \<Rightarrow>
          (if list_ex (\<lambda>x. map_of x k = Some (PStr (h r))) (rows_of d t)
           then (d, Some (IntegrityError t))
           else insert_chunks opts t [[dict_set r k (PStr (h r))]] d))"

text \<open>The calls of a log, in order, up to the first that fails.\<close>

fun apply_log :: "(row \<Rightarrow> string) \<Rightarrow> log \<Rightarrow> db \<Rightarrow> db \<times> db_error option" where
  "apply_log h [] d = (d, None)"
| "apply_log h (InsertAll t rows opts # l) d =
     (case insert_all_db opts t rows d of (d', None) \<Rightarrow> apply_log h l d' | r \<Rightarrow> r)"
| "apply_log h (Insert t r opts # l) d =
     (case insert_db h opts t r d of (d', None) \<Rightarrow> apply_log h l d' | res \<Rightarrow> res)"
| "apply_log h (OpenFile p # l) d = apply_log h l d"
| "apply_log h (Progress n # l) d = apply_log h l d"

section \<open>Lemmas\<close>

lemma rows_of_dict_set [simp]:
  "rows_of (dict_set d t tb) t' = (if t' = t then trows tb else rows_of d t')"
  by (simp add: rows_of_def)

lemma insert_chunk_rows:
  "insert_chunk opts t rows d = Inr d' \<Longrightarrow> rows_of d' t' = (if t' = t then rows_of d t @ rows else rows_of d t')"
  by (auto simp: insert_chunk_def rows_of_def Let_def split: option.splits if_splits)

lemma insert_chunks_rows:
  "insert_chunks opts t cs d = (d', e) \<Longrightarrow>
   \<exists>j. rows_of d' t' = (if t' = t then rows_of d t @ concat (take j cs) else rows_of d t') \<and>
       (if e = None then j = length cs else j < length cs)"
proof (induction opts t cs d rule: insert_chunks.induct)
  case (1 opts t d)
  then show ?case by auto
next
  case (2 opts t c cs d)
  show ?case
  proof (cases "insert_chunk opts t c d")
    case (Inl err)
    with "2.prems" show ?thesis by (intro exI [of _ 0]) auto
  next
    case (Inr d1)
    with "2.prems" have "insert_chunks opts t cs d1 = (d', e)" by simp
    from "2.IH" [OF Inr this] obtain j where
      j: "rows_of d' t' = (if t' = t then rows_of d1 t @ concat (take j cs) else rows_of d1 t')"
         "if e = None then j = length cs else j < length cs" by blast
    from insert_chunk_rows [OF Inr, of t] insert_chunk_rows [OF Inr, of t'] j show ?thesis
      by (intro exI [of _ "Suc j"]) auto
  qed
qed

lemma insert_chunk_error: "insert_chunk opts t rows d = Inl e \<Longrightarrow> \<not> alter opts \<and> (\<exists>c. e = OperationalError t c)"
  by (auto simp: insert_chunk_def Let_def split: option.splits if_splits)

lemma insert_chunks_error:
  "insert_chunks opts t cs d = (d', Some e) \<Longrightarrow> \<not> alter opts \<and> (\<exists>c. e = OperationalError t c)"
  by (induction opts t cs d rule: insert_chunks.induct) (auto split: sum.splits dest: insert_chunk_error)

lemma insert_all_db_rows:
  "insert_all_db opts t rows d = (d', e) \<Longrightarrow>
   \<exists>j. rows_of d' t' = (if t' = t then rows_of d t @ concat (take j (read_chunks (batch_size opts) rows)) else rows_of d t')"
  unfolding insert_all_db_def by (drule insert_chunks_rows) blast

lemma concat_take_read_chunks:
  "0 < n \<Longrightarrow> set (concat (take j (read_chunks n rows))) \<subseteq> set rows"
  by (metis append_take_drop_id concat_append read_chunks_concat set_append sup_ge1)

lemma insert_db_rows:
  assumes "insert_db h opts t r d = (d', e)"
  shows "rows_of d' t' =
           (if e = None \<and> t' = t
            then rows_of d t @ [case hash_id opts of None \<Rightarrow> r | Some k \<Rightarrow> dict_set r k (PStr (h r))]
            else rows_of d t')"
proof -
  obtain rr where ch: "insert_chunks opts t [[rr]] d = (d', e) \<or> (d' = d \<and> e \<noteq> None)"
    and rr: "rr = (case hash_id opts of None \<Rightarrow> r | Some k \<Rightarrow> dict_set r k (PStr (h r)))"
    using assms by (auto simp: insert_db_def split: option.splits if_splits)
  then show ?thesis
  proof (elim disjE)
    assume "insert_chunks opts t [[rr]] d = (d', e)"
    from insert_chunks_rows [OF this, of t'] obtain j where
      j: "rows_of d' t' = (if t' = t then rows_of d t @ concat (take j [[rr]]) else rows_of d t')"
      "if e = None then j = length [[rr]] else j < length [[rr]]" by blast
    with rr show ?thesis by (cases "e = None") auto
  qed auto
qed

lemma insert_db_error:
  "insert_db h opts t r d = (d', Some e) \<Longrightarrow>
   (hash_id opts \<noteq> None \<and> e = IntegrityError t) \<or> (\<not> alter opts \<and> (\<exists>c. e = OperationalError t c))"
  by (auto simp: insert_db_def simp del: insert_chunks.simps split: option.splits if_splits dest: insert_chunks_error)

lemma insert_db_IntegrityError:
  assumes "insert_db h opts t r d = (d', Some (IntegrityError t'))"
  shows "\<exists>k. hash_id opts = Some k \<and> list_ex (\<lambda>x. map_of x k = Some (PStr (h r))) (rows_of d t)"
  using assms by (auto simp: insert_db_def simp del: insert_chunks.simps split: option.splits if_splits
                       dest: insert_chunks_error)

lemma insert_all_db_rows_None:
  assumes "insert_all_db opts t rows d = (d', None)" and "0 < batch_size opts"
  shows "rows_of d' t' = (if t' = t then rows_of d t @ rows else rows_of d t')"
proof -
  from assms(1) have "insert_chunks opts t (read_chunks (batch_size opts) rows) d = (d', None)"
    by (simp add: insert_all_db_def)
  from insert_chunks_rows [OF this, of t'] read_chunks_concat [OF assms(2), of rows] show ?thesis
    by auto
qed

lemma set_keys_of: "set (keys_of rows) = (\<Union>r \<in> set rows. set (dict_keys r))"
  by (simp add: keys_of_def)

lemma insert_chunk_other:
  "insert_chunk opts t rows d = Inr d' \<Longrightarrow> t' \<noteq> t \<Longrightarrow> map_of d' t' = map_of d t'"
  by (auto simp: insert_chunk_def Let_def split: option.splits if_splits)

lemma insert_chunks_other:
  "insert_chunks opts t cs d = (d', e) \<Longrightarrow> t' \<noteq> t \<Longrightarrow> map_of d' t' = map_of d t'"
  by (induction opts t cs d rule: insert_chunks.induct) (auto split: sum.splits dest: insert_chunk_other)

lemma insert_db_other:
  "insert_db h opts t r d = (d', e) \<Longrightarrow> t' \<noteq> t \<Longrightarrow> map_of d' t' = map_of d t'"
  by (auto simp: insert_db_def simp del: insert_chunks.simps split: option.splits if_splits dest: insert_chunks_other)

text \<open>Without \<open>alter\<close>, a batch accepted by an existing table has only its columns, which stay.\<close>

lemma insert_chunk_fixed:
  assumes "insert_chunk opts t rows d = Inr d'" and "\<not> alter opts" and "map_of d t = Some tb"
  shows "set (keys_of rows) \<subseteq> set (tcols tb) \<and> (\<exists>tb'. map_of d' t = Some tb' \<and> tcols tb' = tcols tb)"
proof -
  from assms have "filter (\<lambda>c. c \<notin> set (tcols tb)) (keys_of rows) = []"
    by (auto simp: insert_chunk_def Let_def split: if_splits)
  then have "set (keys_of rows) \<subseteq> set (tcols tb)" by (auto simp: filter_empty_conv)
  with assms show ?thesis by (auto simp: insert_chunk_def Let_def split: if_splits)
qed

lemma insert_chunks_fixed:
  "insert_chunks opts t cs d = (d', None) \<Longrightarrow> \<not> alter opts \<Longrightarrow> map_of d t = Some tb \<Longrightarrow>
   set (keys_of (concat cs)) \<subseteq> set (tcols tb) \<and> (\<exists>tb'. map_of d' t = Some tb' \<and> tcols tb' = tcols tb)"
proof (induction opts t cs d arbitrary: tb rule: insert_chunks.induct)
  case (1 opts t d)
  then show ?case by (simp add: keys_of_def)
next
  case (2 opts t c cs d)
  then obtain d1 where c: "insert_chunk opts t c d = Inr d1" and rest: "insert_chunks opts t cs d1 = (d', None)"
    by (auto split: sum.splits)
  from insert_chunk_fixed [OF c "2.prems"(2,3)] obtain tb1 where
    k: "set (keys_of c) \<subseteq> set (tcols tb)" and tb1: "map_of d1 t = Some tb1" "tcols tb1 = tcols tb" by blast
  from "2.IH" [OF c rest "2.prems"(2) tb1(1)] k tb1(2) show ?case by (simp add: set_keys_of)
qed

text \<open>A batch call that creates its table gives it the columns of the first batch only.\<close>

lemma insert_all_db_create:
  assumes "insert_all_db opts t rows d = (d', None)" and "map_of d t = None" and "rows \<noteq> []"
    and "0 < batch_size opts" and "\<not> alter opts" and "column_order opts = []"
  shows "\<exists>tb. map_of d' t = Some tb \<and> set (tcols tb) = set (keys_of (take (batch_size opts) rows)) \<and>
              set (keys_of rows) \<subseteq> set (tcols tb)"
proof -
  let ?n = "batch_size opts"
  have rc: "read_chunks ?n rows = take ?n rows # read_chunks ?n (drop ?n rows)"
    using assms(3,4) by (subst read_chunks_Cons_iff) simp
  let ?tb = "\<lparr>tcols = ordered_cols [] (keys_of (take ?n rows)), trows = take ?n rows\<rparr>"
  from assms(1,2,6) rc have rest: "insert_chunks opts t (read_chunks ?n (drop ?n rows)) (dict_set d t ?tb) = (d', None)"
    by (simp add: insert_all_db_def insert_chunk_def)
  have cols: "set (tcols ?tb) = set (keys_of (take ?n rows))" by (simp add: ordered_cols_def)
  from insert_chunks_fixed [OF rest assms(5), of ?tb] obtain tb' where
    k: "set (keys_of (concat (read_chunks ?n (drop ?n rows)))) \<subseteq> set (tcols ?tb)"
    and tb': "map_of d' t = Some tb'" "tcols tb' = tcols ?tb" by auto
  have "set (keys_of rows) = set (keys_of (take ?n rows)) \<union> set (keys_of (drop ?n rows))"
    by (metis append_take_drop_id set_keys_of UN_Un set_append)
  with k cols tb' read_chunks_concat [OF assms(4), of "drop ?n rows"] show ?thesis by auto
qed

end
