(* ===== verification/Run_Storage.thy ===== *)
theory Run_Storage
  imports Row_Shapes Storage_Engine
begin

text \<open>
  The converter and the storage engine together: the database a run leaves is its log
  of calls applied in order to the empty database, up to the first call the engine
  rejects (the exception then ends the run). The converter's calls have fixed shapes
  (\<open>call_ok\<close>): workouts by \<open>insert\<close> with \<open>alter\<close> and \<open>hash_id="id"\<close>, points and
  summaries by \<open>insert_all\<close> without \<open>alter\<close>, records by \<open>insert_all\<close> with
  \<open>alter\<close>. The views \<open>workout_ids\<close> and \<open>db_fk\<close> read the database.
\<close>

definition call_ok :: "effect \<Rightarrow> bool" where
  "call_ok e =
     (case e of
        Insert t r opts \<Rightarrow> t = ''workouts'' \<and> opts = workout_opts
      | InsertAll t rows opts \<Rightarrow>
          (t = ''activity_summary'' \<and> opts = default_opts) \<or> (t = ''workout_points'' \<and> opts = points_opts) \<or>
          (record_table t \<and> opts = record_opts)
      | _ \<Rightarrow> True)"

definition id_of :: "row \<Rightarrow> string list" where
  "id_of r = (case map_of r ''id'' of Some (PStr v) \<Rightarrow> [v] | _ \<Rightarrow> [])"

definition workout_ids :: "db \<Rightarrow> string list" where
  "workout_ids d = concat (map id_of (rows_of d ''workouts''))"

text \<open>Every stored point names, as \<open>workout_id\<close>, the identifier of a stored workout.\<close>

definition db_fk :: "db \<Rightarrow> bool" where
  "db_fk d =
     list_all (\<lambda>p. list_ex (\<lambda>v. map_of p ''workout_id'' = Some (PStr v)) (workout_ids d))
       (rows_of d ''workout_points'')"

section \<open>Lemmas\<close>

lemma call_ok_simps [simp]:
  "call_ok (OpenFile p)" "call_ok (Progress n)" "call_ok (Insert t r opts) = (t = ''workouts'' \<and> opts = workout_opts)"
  by (simp_all add: call_ok_def)

lemma map_OpenFile_calls_ok [simp]: "list_all call_ok (map OpenFile ps)"
  by (simp add: list_all_iff)

lemma record_inserts_of_calls_ok: "list_all call_ok (record_inserts_of rs)"
proof (unfold list_all_iff, intro ballI)
  fix e assume e: "e \<in> set (record_inserts_of rs)"
  then obtain t rows where ei: "e = InsertAll t rows record_opts"
    by (auto simp: record_inserts_of_def split: sum.splits)
  with record_inserts_of_sizes [of t rows record_opts rs] e show "call_ok e" by (simp add: call_ok_def)
qed

lemma workout_to_db_calls_ok:
  "workout_to_db env h w l = Inr l' \<Longrightarrow> list_all call_ok l \<Longrightarrow> list_all call_ok l'"
  by (drule workout_to_db_Inr) (auto simp: insert_points_def call_ok_def)

lemma workout_to_db_calls_ok_Inl:
  "workout_to_db env h w l = Inl (e, l') \<Longrightarrow> list_all call_ok l \<Longrightarrow> list_all call_ok l'"
  by (drule workout_to_db_Inl) auto

lemma conv_step_calls_ok:
  assumes "conv_step env h s it = Inr s'" and "list_all call_ok (db_log s)"
  shows "list_all call_ok (db_log s')"
proof (cases it)
  case (Yield t el)
  with assms(1) have "handle_element env h s t el = Inr s'" by simp
  then show ?thesis
  proof (cases rule: handle_element_InrE)
    case sum_flush
    with assms(2) show ?thesis by (simp add: call_ok_def)
  next
    case (workout l)
    with assms(2) workout_to_db_calls_ok show ?thesis by simp
  next
    case (rec_flush r l)
    from write_records_Inr [OF rec_flush(4)] rec_flush(5) assms(2) record_inserts_of_calls_ok
    show ?thesis by simp
  qed (use assms in simp_all)
qed (use assms in auto)

lemma conv_step_calls_ok_Inl:
  assumes "conv_step env h s it = Inl (e, l)" and "list_all call_ok (db_log s)"
  shows "list_all call_ok l"
proof (cases it)
  case (Yield t el)
  with assms(1) have "handle_element env h s t el = Inl (e, l)" by simp
  then show ?thesis
  proof (cases rule: handle_element_InlE)
    case workout
    from workout_to_db_calls_ok_Inl [OF workout(2) assms(2)] show ?thesis .
  qed (use assms in simp)
qed (use assms in simp)

lemma conv_finish_calls_ok:
  assumes "conv_finish cb s = Inr l" and "list_all call_ok (db_log s)"
  shows "list_all call_ok l"
proof -
  obtain l1 where l1: "(if records s \<noteq> [] then write_records (records s) (db_log s) else Inr (db_log s)) = Inr l1"
    and l: "l = (let l' = (if activity_summaries s \<noteq> []
                 then l1 @ [InsertAll ''activity_summary'' (activity_summaries s) default_opts] else l1)
                 in if cb then l' @ [Progress sys_maxsize] else l')"
    using assms(1) by (auto simp: conv_finish_def Let_def split: sum.splits)
  have "list_all call_ok l1"
  proof (cases "records s \<noteq> []")
    case True
    with l1 have "l1 = db_log s @ record_inserts_of (records s)" by (simp add: write_records_Inr)
    with assms(2) record_inserts_of_calls_ok show ?thesis by simp
  next
    case False
    with l1 assms(2) show ?thesis by simp
  qed
  with l show ?thesis by (simp add: Let_def call_ok_def)
qed

lemma convert_calls_ok: "list_all call_ok (outcome_log (convert_xml_to_sqlite feed p0 env h fp cb))"
proof (rule convert_preserves [where I = "\<lambda>_. True" and Q = "\<lambda>s. list_all call_ok (db_log s)"])
  fix s it s' assume q: "list_all call_ok (db_log s)" and st: "conv_step env h s it = Inr s'"
  from st q show "list_all call_ok (db_log s')" by (rule conv_step_calls_ok)
next
  fix s it e l assume q: "list_all call_ok (db_log s)" and st: "conv_step env h s it = Inl (e, l)"
  from st q show "list_all call_ok l" by (rule conv_step_calls_ok_Inl)
next
  show "list_all (\<lambda>_. True) (fst (find_all_tags feed p0 fp convert_tags cb))" by (simp add: list_all_iff)
next
  show "list_all call_ok (db_log conv_init)" by (simp add: conv_init_def)
next
  fix s l assume q: "list_all call_ok (db_log s)" and f: "conv_finish cb s = Inr l"
  from f q show "list_all call_ok l" by (rule conv_finish_calls_ok)
qed simp

lemma record_table_not_special [simp]:
  "record_table t \<Longrightarrow> t \<noteq> ''workouts''" "record_table t \<Longrightarrow> t \<noteq> ''workout_points''"
  "record_table t \<Longrightarrow> t \<noteq> ''activity_summary''"
  by (auto simp: record_table_def)

lemma id_of_hashed [simp]: "id_of (dict_set r ''id'' (PStr v)) = [v]"
  by (simp add: id_of_def)

lemma workout_ids_member: "list_ex (\<lambda>x. map_of x ''id'' = Some (PStr v)) (rows_of d ''workouts'') \<longleftrightarrow> v \<in> set (workout_ids d)"
  unfolding workout_ids_def id_of_def list_ex_iff by (force split: option.splits pyval.splits)

text \<open>What one call does to the two tables of the foreign key.\<close>

lemma insert_all_db_fk_tables:
  assumes "insert_all_db opts t rows d = (d', e)" and "t \<noteq> ''workouts''"
  shows "workout_ids d' = workout_ids d \<and>
         (\<exists>j. rows_of d' ''workout_points'' =
                (if t = ''workout_points'' then rows_of d ''workout_points'' @ concat (take j (read_chunks (batch_size opts) rows))
                 else rows_of d ''workout_points''))"
  using insert_all_db_rows [OF assms(1), of "''workouts''"] insert_all_db_rows [OF assms(1), of "''workout_points''"] assms(2)
  by (auto simp: workout_ids_def)

lemma insert_db_fk_tables:
  assumes "insert_db h workout_opts ''workouts'' r d = (d', e)"
  shows "rows_of d' ''workout_points'' = rows_of d ''workout_points'' \<and>
         workout_ids d' = (if e = None then workout_ids d @ [h r] else workout_ids d)"
  using insert_db_rows [OF assms, of "''workout_points''"] insert_db_rows [OF assms, of "''workouts''"]
  by (auto simp: workout_ids_def workout_opts_def default_opts_def)

lemma apply_log_fk:
  assumes "fk_from h ks l" and "list_all call_ok l" and "set ks \<subseteq> set (workout_ids d)" and "db_fk d"
  shows "db_fk (fst (apply_log h l d))"
  using assms
proof (induction l arbitrary: ks d)
  case Nil
  then show ?case by simp
next
  case (Cons eff l)
  show ?case
  proof (cases eff)
    case (InsertAll t rows opts)
    obtain d' e where ins: "insert_all_db opts t rows d = (d', e)" by fastforce
    from Cons.prems(2) InsertAll have t: "t \<noteq> ''workouts''" and bs: "t = ''workout_points'' \<Longrightarrow> opts = points_opts"
      by (auto simp: call_ok_def record_table_def)
    from insert_all_db_fk_tables [OF ins t] obtain j where ids: "workout_ids d' = workout_ids d" and
      pts: "rows_of d' ''workout_points'' = (if t = ''workout_points''
              then rows_of d ''workout_points'' @ concat (take j (read_chunks (batch_size opts) rows))
              else rows_of d ''workout_points'')" by blast
    have fk: "db_fk d'"
    proof (cases "t = ''workout_points''")
      case True
      with bs have sub: "set (concat (take j (read_chunks (batch_size opts) rows))) \<subseteq> set rows"
        by (intro concat_take_read_chunks) (simp add: points_opts_def default_opts_def)
      have ref: "\<exists>v \<in> set (workout_ids d). map_of p ''workout_id'' = Some (PStr v)" if "p \<in> set rows" for p
        using that True InsertAll Cons.prems(1,3) by fastforce
      have "\<exists>v \<in> set (workout_ids d). map_of p ''workout_id'' = Some (PStr v)"
        if "p \<in> set (rows_of d' ''workout_points'')" for p
      proof (cases "p \<in> set (rows_of d ''workout_points'')")
        case True
        with Cons.prems(4) show ?thesis by (auto simp: db_fk_def list_all_iff list_ex_iff)
      next
        case False
        with that pts \<open>t = ''workout_points''\<close> sub have "p \<in> set rows" by auto
        then show ?thesis by (rule ref)
      qed
      with ids show ?thesis by (auto simp: db_fk_def list_all_iff list_ex_iff)
    next
      case False
      with pts ids Cons.prems(4) show ?thesis by (simp add: db_fk_def)
    qed
    show ?thesis
    proof (cases e)
      case None
      from Cons.prems(1,2) InsertAll have "fk_from h ks l" "list_all call_ok l" by simp_all
      moreover from ids Cons.prems(3) have "set ks \<subseteq> set (workout_ids d')" by simp
      ultimately have "db_fk (fst (apply_log h l d'))" using fk by (rule Cons.IH)
      with InsertAll ins None show ?thesis by simp
    next
      case (Some err)
      with InsertAll ins fk show ?thesis by simp
    qed
  next
    case (Insert t r opts)
    from Cons.prems(2) Insert have t: "t = ''workouts''" and op: "opts = workout_opts" by simp_all
    obtain d' e where ins: "insert_db h opts t r d = (d', e)" by fastforce
    from insert_db_fk_tables [of h r d d' e] ins t op
    have pts: "rows_of d' ''workout_points'' = rows_of d ''workout_points''"
      and ids: "workout_ids d' = (if e = None then workout_ids d @ [h r] else workout_ids d)" by simp_all
    have fk: "db_fk d'"
      using ids pts Cons.prems(4) by (auto simp: db_fk_def list_all_iff list_ex_iff split: if_splits)
    show ?thesis
    proof (cases e)
      case None
      from Cons.prems(1,2) Insert t have "fk_from h (h r # ks) l" "list_all call_ok l" by simp_all
      moreover from ids None Cons.prems(3) have "set (h r # ks) \<subseteq> set (workout_ids d')" by auto
      ultimately have "db_fk (fst (apply_log h l d'))" using fk by (rule Cons.IH)
      with Insert ins None show ?thesis by simp
    next
      case (Some err)
      with Insert ins fk show ?thesis by simp
    qed
  next
    case (OpenFile p)
    with Cons.prems Cons.IH show ?thesis by simp
  next
    case (Progress n)
    with Cons.prems Cons.IH show ?thesis by simp
  qed
qed

text \<open>The workout rows of a run are pairwise distinct: they carry distinct \<open>seq\<close> values.\<close>

lemma seq_ok_distinct: "seq_ok l \<Longrightarrow> distinct (inserts_to ''workouts'' l)"
proof -
  assume "seq_ok l"
  then have "distinct (map (\<lambda>r. map_of r ''seq'') (inserts_to ''workouts'' l))"
    by (simp add: seq_ok_def distinct_map inj_on_def)
  then show ?thesis by (simp add: distinct_map)
qed

lemma apply_log_no_conflict:
  assumes "list_all call_ok l" and "workout_ids d = map h ws"
    and "distinct (ws @ inserts_to ''workouts'' l)" and "inj_on h (set (ws @ inserts_to ''workouts'' l))"
  shows "snd (apply_log h l d) \<noteq> Some (IntegrityError t)"
  using assms
proof (induction l arbitrary: ws d)
  case Nil
  then show ?case by simp
next
  case (Cons eff l)
  show ?case
  proof (cases eff)
    case (InsertAll t' rows opts)
    obtain d' e where ins: "insert_all_db opts t' rows d = (d', e)" by fastforce
    from Cons.prems(1) InsertAll have t': "t' \<noteq> ''workouts''" by (auto simp: call_ok_def record_table_def)
    from insert_all_db_fk_tables [OF ins t'] have ids: "workout_ids d' = workout_ids d" by blast
    show ?thesis
    proof (cases e)
      case None
      from Cons.prems InsertAll ids have "snd (apply_log h l d') \<noteq> Some (IntegrityError t)"
        by (intro Cons.IH [where ws = ws]) simp_all
      with InsertAll ins None show ?thesis by simp
    next
      case (Some err)
      from ins Some insert_chunks_error [of opts t' _ d d' err] have "err \<noteq> IntegrityError t"
        by (auto simp: insert_all_db_def)
      with InsertAll ins Some show ?thesis by simp
    qed
  next
    case (Insert t' r opts)
    from Cons.prems(1) Insert have t': "t' = ''workouts''" and op: "opts = workout_opts" by simp_all
    obtain d' e where ins: "insert_db h opts t' r d = (d', e)" by fastforce
    from Cons.prems(3) Insert t' have r: "r \<notin> set ws" by auto
    have inj: "inj_on h (insert r (set ws))"
      by (rule inj_on_subset [OF Cons.prems(4)]) (auto simp: Insert t')
    have free: "h r \<notin> set (workout_ids d)"
      using r inj Cons.prems(2) by (auto simp: inj_on_def)
    show ?thesis
    proof (cases e)
      case None
      from insert_db_fk_tables [of h r d d' e] ins t' op None
      have "workout_ids d' = map h (ws @ [r])" using Cons.prems(2) by simp
      with Cons.prems Insert t' have "snd (apply_log h l d') \<noteq> Some (IntegrityError t)"
        by (intro Cons.IH [where ws = "ws @ [r]"]) auto
      with Insert ins None show ?thesis by simp
    next
      case (Some err)
      have "err \<noteq> IntegrityError t"
      proof
        assume "err = IntegrityError t"
        with ins Some insert_db_IntegrityError [of h opts t' r d d' t] op t' free show False
          by (simp add: workout_opts_def default_opts_def workout_ids_member)
      qed
      with Insert ins Some show ?thesis by simp
    qed
  qed (use Cons in simp_all)
qed

lemma call_ok_batch_size: "call_ok (InsertAll t rows opts) \<Longrightarrow> 0 < batch_size opts"
  by (auto simp: call_ok_def default_opts_def points_opts_def record_opts_def)

text \<open>A log the engine accepts whole leaves in each bulk-written table its rows, in order.\<close>

lemma apply_log_rows:
  assumes "list_all call_ok l" and "apply_log h l d = (d', None)" and "t \<noteq> ''workouts''"
  shows "rows_of d' t = rows_of d t @ concat (batches_to t l)"
  using assms(1,2)
proof (induction l arbitrary: d)
  case Nil
  then show ?case by simp
next
  case (Cons eff l)
  show ?case
  proof (cases eff)
    case (InsertAll t' rows opts)
    obtain d1 e where ins: "insert_all_db opts t' rows d = (d1, e)" by fastforce
    with Cons.prems(2) InsertAll have e: "e = None" and rest: "apply_log h l d1 = (d', None)"
      by (auto split: option.splits)
    from Cons.prems(1) InsertAll have "0 < batch_size opts" by (auto intro: call_ok_batch_size)
    from insert_all_db_rows_None [OF ins [unfolded e] this, of t] Cons.IH [OF _ rest] Cons.prems(1) InsertAll
    show ?thesis by simp
  next
    case (Insert t' r opts)
    obtain d1 e where ins: "insert_db h opts t' r d = (d1, e)" by fastforce
    with Cons.prems(2) Insert have rest: "apply_log h l d1 = (d', None)"
      by (auto split: option.splits)
    from Cons.prems(1) Insert have t': "t' = ''workouts''" by simp
    from insert_db_rows [OF ins, of t] Cons.IH [OF _ rest] Cons.prems(1) Insert t' assms(3)
    show ?thesis by simp
  qed (use Cons in simp_all)
qed

text \<open>The only exceptions the engine raises on the converter's calls.\<close>

lemma apply_log_error:
  assumes "list_all call_ok l" and "apply_log h l d = (d', Some e)"
  shows "(\<exists>c. e = OperationalError ''activity_summary'' c) \<or> (\<exists>c. e = OperationalError ''workout_points'' c) \<or>
         e = IntegrityError ''workouts''"
  using assms
proof (induction l arbitrary: d)
  case Nil
  then show ?case by simp
next
  case (Cons eff l)
  show ?case
  proof (cases eff)
    case (InsertAll t' rows opts)
    obtain d1 e1 where ins: "insert_all_db opts t' rows d = (d1, e1)" by fastforce
    show ?thesis
    proof (cases e1)
      case None
      with Cons ins InsertAll show ?thesis by simp
    next
      case (Some err)
      with Cons.prems(2) ins InsertAll have "e = err" by simp
      with insert_chunks_error [of opts t' _ d d1 err] ins Some
      have "\<not> alter opts" "\<exists>c. e = OperationalError t' c" by (auto simp: insert_all_db_def)
      with Cons.prems(1) InsertAll show ?thesis
        by (auto simp: call_ok_def record_opts_def)
    qed
  next
    case (Insert t' r opts)
    obtain d1 e1 where ins: "insert_db h opts t' r d = (d1, e1)" by fastforce
    from Cons.prems(1) Insert have t': "t' = ''workouts''" and op: "opts = workout_opts" by simp_all
    show ?thesis
    proof (cases e1)
      case None
      with Cons ins Insert show ?thesis by simp
    next
      case (Some err)
      with Cons.prems(2) ins Insert have "e = err" by simp
      with insert_db_error [of h opts t' r d d1 err] ins Some t' op show ?thesis
        by (simp add: workout_opts_def default_opts_def)
    qed
  qed (use Cons in simp_all)
qed

lemma apply_log_prefix_ok:
  "apply_log h (eff # l) d = (d', None) \<Longrightarrow>
   (\<exists>t rows opts d1. eff = InsertAll t rows opts \<and> insert_all_db opts t rows d = (d1, None) \<and> apply_log h l d1 = (d', None)) \<or>
   (\<exists>t r opts d1. eff = Insert t r opts \<and> insert_db h opts t r d = (d1, None) \<and> apply_log h l d1 = (d', None)) \<or>
   ((\<exists>p. eff = OpenFile p) \<or> (\<exists>n. eff = Progress n)) \<and> apply_log h l d = (d', None)"
  by (cases eff) (auto split: prod.splits option.splits)

text \<open>The two tables written without \<open>alter\<close>, with the batch size of their calls.\<close>

lemma call_ok_fixed_table:
  "call_ok (InsertAll t rows opts) \<Longrightarrow> t = ''activity_summary'' \<or> t = ''workout_points'' \<Longrightarrow>
   \<not> alter opts \<and> column_order opts = [] \<and>
   batch_size opts = (if t = ''workout_points'' then 50 else 100)"
  by (auto simp: call_ok_def default_opts_def points_opts_def record_opts_def record_table_def)

lemma apply_log_schema_fixed:
  assumes "list_all call_ok l" and "apply_log h l d = (d', None)"
    and "t = ''activity_summary'' \<or> t = ''workout_points''" and "map_of d t = Some tb"
  shows "set (keys_of (concat (batches_to t l))) \<subseteq> set (tcols tb)"
  using assms(1,2,4)
proof (induction l arbitrary: d tb)
  case Nil
  then show ?case by (simp add: keys_of_def)
next
  case (Cons eff l)
  from apply_log_prefix_ok [OF Cons.prems(2)] show ?case
  proof (elim disjE exE conjE)
    fix t' rows opts d1
    assume e: "eff = InsertAll t' rows opts" and ins: "insert_all_db opts t' rows d = (d1, None)"
      and rest: "apply_log h l d1 = (d', None)"
    from Cons.prems(1) e have ok: "call_ok (InsertAll t' rows opts)" "list_all call_ok l" by simp_all
    show ?thesis
    proof (cases "t' = t")
      case True
      with call_ok_fixed_table [OF ok(1)] assms(3) have na: "\<not> alter opts" by auto
      from insert_chunks_fixed [OF ins [unfolded insert_all_db_def] na] True Cons.prems(3) obtain tb1 where
        k: "set (keys_of (concat (read_chunks (batch_size opts) rows))) \<subseteq> set (tcols tb)"
        and tb1: "map_of d1 t = Some tb1" "tcols tb1 = tcols tb" by blast
      have bs: "0 < batch_size opts" using ok(1) by (rule call_ok_batch_size)
      from k have "set (keys_of rows) \<subseteq> set (tcols tb)" by (simp only: read_chunks_concat [OF bs])

      with Cons.IH [OF ok(2) rest tb1(1)] tb1(2) e True show ?thesis
        by (simp add: set_keys_of)

    next
      case False
      from insert_chunks_other [OF ins [unfolded insert_all_db_def]] False Cons.prems(3)
      have "map_of d1 t = Some tb" by simp
      from Cons.IH [OF ok(2) rest this] e False show ?thesis by simp
    qed
  next
    fix t' r opts d1
    assume e: "eff = Insert t' r opts" and ins: "insert_db h opts t' r d = (d1, None)"
      and rest: "apply_log h l d1 = (d', None)"
    from Cons.prems(1) e have t': "t' = ''workouts''" and ok: "list_all call_ok l" by simp_all
    with assms(3) have "t \<noteq> t'" by auto
    from insert_db_other [OF ins this]
 Cons.prems(3) have "map_of d1 t = Some tb" by simp
    from Cons.IH [OF ok rest this] e show ?thesis by simp
  next
    fix p assume "eff = OpenFile p" and rest: "apply_log h l d = (d', None)"
    with Cons.prems Cons.IH [OF _ rest] show ?thesis by auto
  next
    fix n assume "eff = Progress n" and rest: "apply_log h l d = (d', None)"
    with Cons.prems Cons.IH [OF _ rest] show ?thesis by auto
  qed

qed

lemma apply_log_schema_first:
  assumes "list_all call_ok l" and "list_all insert_ok l" and "apply_log h l d = (d', None)"
    and "t = ''activity_summary'' \<or> t = ''workout_points''" and "map_of d t = None"
    and "batches_to t l = B # Bs"
  shows "set (keys_of (concat (B # Bs))) \<subseteq> set (keys_of (take (if t = ''workout_points'' then 50 else 100) B))"
  using assms(1-3,5,6)
proof (induction l arbitrary: d)
  case Nil
  then show ?case by simp
next
  case (Cons eff l)
  from apply_log_prefix_ok [OF Cons.prems(3)] show ?case
  proof (elim disjE exE conjE)
    fix t' rows opts d1
    assume e: "eff = InsertAll t' rows opts" and ins: "insert_all_db opts t' rows d = (d1, None)"
      and rest: "apply_log h l d1 = (d', None)"
    from Cons.prems(1,2) e have ok: "call_ok (InsertAll t' rows opts)" "list_all call_ok l"
      "insert_ok (InsertAll t' rows opts)" "list_all insert_ok l" by simp_all
    show ?thesis
    proof (cases "t' = t")
      case True
      with call_ok_fixed_table [OF ok(1)] assms(4) have o: "\<not> alter opts" "column_order opts = []"
        "batch_size opts = (if t = ''workout_points'' then 50 else 100)" by auto
      from ok(3) have ne: "rows \<noteq> []" by (simp add: insert_ok_def)
      from True e Cons.prems(5) have B: "B = rows" "batches_to t l = Bs" by simp_all
      have "0 < batch_size opts" using ok(1) by (rule call_ok_batch_size)
      from insert_all_db_create [OF ins Cons.prems(4) [folded True] ne this o(1,2)] True o(3) obtain tb where
        tb: "map_of d1 t = Some tb" "set (tcols tb) = set (keys_of (take (if t = ''workout_points'' then 50 else 100) rows))"
            "set (keys_of rows) \<subseteq> set (tcols tb)" by auto
      from apply_log_schema_fixed [OF ok(2) rest assms(4) tb(1)] B(2)
      have "set (keys_of (concat Bs)) \<subseteq> set (tcols tb)" by simp
      with tb(2,3) B(1) show ?thesis by (simp add: set_keys_of)
    next
      case False
      from insert_chunks_other [OF ins [unfolded insert_all_db_def]] False Cons.prems(4)
      have "map_of d1 t = None" by simp
      from Cons.IH [OF ok(2,4) rest this] e False Cons.prems(5) show ?thesis by simp
    qed
  next
    fix t' r opts d1
    assume e: "eff = Insert t' r opts" and ins: "insert_db h opts t' r d = (d1, None)"
      and rest: "apply_log h l d1 = (d', None)"
    from Cons.prems(1,2) e have t': "t' = ''workouts''" and ok: "list_all call_ok l" "list_all insert_ok l"
      by simp_all
    with assms(4) have "t \<noteq> t'" by auto
    from insert_db_other [OF ins this] Cons.prems(4) have "map_of d1 t = None" by simp
    from Cons.IH [OF ok rest this] e Cons.prems(5) show ?thesis by simp
  next
    fix p assume "eff = OpenFile p" and rest: "apply_log h l d = (d', None)"
    with Cons.prems Cons.IH [OF _ _ rest] show ?thesis by auto
  next
    fix n assume "eff = Progress n" and rest: "apply_log h l d = (d', None)"
    with Cons.prems Cons.IH [OF _ _ rest] show ?thesis by auto
  qed
qed

text \<open>A log the engine accepts whole leaves in \<open>workouts\<close> the inserted rows, each with its hash as \<open>id\<close>.\<close>

lemma apply_log_workouts:
  assumes "list_all call_ok l" and "apply_log h l d = (d', None)"
  shows "rows_of d' ''workouts'' = rows_of d ''workouts'' @ map (\<lambda>r. dict_set r ''id'' (PStr (h r))) (inserts_to ''workouts'' l)"
  using assms
proof (induction l arbitrary: d)
  case Nil
  then show ?case by simp
next
  case (Cons eff l)
  from apply_log_prefix_ok [OF Cons.prems(2)] show ?case
  proof (elim disjE exE conjE)
    fix t' rows opts d1
    assume e: "eff = InsertAll t' rows opts" and ins: "insert_all_db opts t' rows d = (d1, None)"
      and rest: "apply_log h l d1 = (d', None)"
    from Cons.prems(1) e have ok: "call_ok (InsertAll t' rows opts)" "list_all call_ok l" by simp_all
    then have "t' \<noteq> ''workouts''" by (auto simp: call_ok_def record_table_def)
    moreover have "0 < batch_size opts" using ok(1) by (rule call_ok_batch_size)
    ultimately have "rows_of d1 ''workouts'' = rows_of d ''workouts''"
      using insert_all_db_rows_None [OF ins] by simp
    with Cons.IH [OF ok(2) rest] e show ?thesis by simp
  next
    fix t' r opts d1
    assume e: "eff = Insert t' r opts" and ins: "insert_db h opts t' r d = (d1, None)"
      and rest: "apply_log h l d1 = (d', None)"
    from Cons.prems(1) e have t': "t' = ''workouts''" and op: "opts = workout_opts" and ok: "list_all call_ok l"
      by simp_all
    from insert_db_rows [OF ins, of "''workouts''"] t' op
    have "rows_of d1 ''workouts'' = rows_of d ''workouts'' @ [dict_set r ''id'' (PStr (h r))]"
      by (simp add: workout_opts_def default_opts_def)
    with Cons.IH [OF ok rest] e t' show ?thesis by simp
  next
    fix p assume "eff = OpenFile p" and rest: "apply_log h l d = (d', None)"
    with Cons.prems Cons.IH [OF _ rest] show ?thesis by auto
  next
    fix n assume "eff = Progress n" and rest: "apply_log h l d = (d', None)"
    with Cons.prems Cons.IH [OF _ rest] show ?thesis by auto
  qed
qed

lemma batches_to_map_InsertAll:
  "batches_to t (map (\<lambda>x. InsertAll x (f x) o') xs) = map f (filter (\<lambda>x. x = t) xs)"
  by (induction xs) auto

lemma filter_eq_distinct: "distinct xs \<Longrightarrow> filter (\<lambda>x. x = t) xs = (if t \<in> set xs then [t] else [])"
  by (induction xs) auto

text \<open>A flush gives each table the records of the batch routed to it, in order.\<close>

lemma concat_batches_record_inserts_of:
  assumes "pop_all rs = Inr ps"
  shows "concat (batches_to t (record_inserts_of rs)) = vals_of t ps"
proof -
  have "concat (batches_to t (record_inserts_of rs)) =
          concat (map (\<lambda>t'. vals_of t' ps) (filter (\<lambda>x. x = t) (dedup (map fst ps))))"
    using assms by (simp add: record_inserts_of_def group_spec_def comp_def batches_to_map_InsertAll)

  also have "\<dots> = vals_of t ps"
    by (auto simp: filter_eq_distinct vals_of_notin)
  finally show ?thesis .
qed

lemma record_chunks_rows:
  "pop_all (concat cs) = Inr ps \<Longrightarrow> concat (batches_to t (concat (map record_inserts_of cs))) = vals_of t ps"
proof (induction cs arbitrary: ps)
  case Nil
  then show ?case by (simp add: vals_of_def)
next
  case (Cons c cs)
  then obtain p1 p2 where "pop_all c = Inr p1" "pop_all (concat cs) = Inr p2" "ps = p1 @ p2"
    by (auto simp: pop_all_append split: sum.splits)
  with Cons.IH show ?case by (simp add: concat_batches_record_inserts_of vals_of_def)
qed

lemma batches_to_record_inserts: "record_table t \<Longrightarrow> batches_to t (record_inserts l) = batches_to t l"
  by (induction t l rule: batches_to.induct) (auto simp: record_inserts_def is_record_insert_def)

end
