(* ===== verification/Spec2Isabelle.thy ===== *)
theory Spec2Isabelle
  imports Run_Storage
begin

text \<open>
  \<^bold>\<open>A verification library for healthkit-to-sqlite.\<close>

  The program (src/healthkit_to_sqlite/utils.py) converts an Apple Health \<open>export.xml\<close>
  into SQLite tables. Its parts and the theories that model them:

  \<^item> \<^bold>\<open>Prelude\<close>: Python values (\<open>pyval\<close>), dicts as association lists kept in
    insertion order (\<open>dict_set\<close> updates in place, \<open>dict_pop\<close>), exceptions as the
    datatype \<open>error\<close>, and generic lemmas on them.
  \<^item> \<^bold>\<open>Storage_Interface\<close>: the calls made on the sqlite-utils database, recorded as a log
    of \<open>effect\<close>s (\<open>insert_all\<close>, \<open>insert\<close>, opening a side-car file, a progress report) with
    the keyword arguments as the record \<open>ins_opts\<close>. A run's outcome is \<open>log outcome\<close>:
    \<open>Inr\<close> the calls of a normal return, \<open>Inl (e, l)\<close> the exception \<open>e\<close> raised after the
    calls \<open>l\<close>. The only thing the converter reads back from the engine,
    \<open>last_pk\<close> of the \<open>hash_id\<close> insert, is a parameter \<open>h\<close>.
  \<^item> \<^bold>\<open>Xml_Elements\<close>: ElementTree elements, pull-parser events and the \<open>findall\<close>,
    \<open>get\<close>, \<open>attrib\<close> and \<open>set\<close> the code uses.
  \<^item> \<^bold>\<open>Tag_Stream\<close>: \<open>find_all_tags\<close> (lines 10--25). The read loop is
    \<open>read_chunks\<close> (terminating by the length of what is left); the parser is a
    parameter \<open>feed\<close> returning the events of each chunk; the generator is the list of
    its items (\<open>Yield\<close> an element, \<open>Callback\<close> a chunk length) with the exception that
    ended it. The same loop is also kept as the \<open>while True\<close> loop it is
    (\<open>find_all_loop\<close>, a \<open>while_option\<close> over the loop's variables). Laziness is not observable here: the generator reads nothing its consumer
    writes (\<open>el.clear()\<close> and \<open>root.clear()\<close> only release memory when no tagged element
    lies inside another).
  \<^item> \<^bold>\<open>Record_Router\<close>: \<open>write_records\<close> (lines 102--118): \<open>pop("type")\<close>, the table name
    by two \<open>str.replace\<close>s, grouping with \<open>setdefault\<close>, one \<open>insert_all\<close> per group.
  \<^item> \<^bold>\<open>Side_Files\<close>: the path built for a \<open>FileReference\<close> (\<open>os.path.join\<close> of
    \<open>str.split\<close>), \<open>open_file_or_zip\<close> (lines 89--93) and \<open>parse_gpx\<close> (lines 96--99);
    the zip archive, the file system and gpxpy are the record \<open>side_env\<close>.
  \<^item> \<^bold>\<open>Workout_Assembler\<close>: \<open>workout_to_db\<close> (lines 61--86).
  \<^item> \<^bold>\<open>Orchestrator\<close>: \<open>convert_xml_to_sqlite\<close> (lines 28--58) as a loop state
    \<open>conv_state\<close>, one step per item of the generator (\<open>conv_step\<close>, \<open>handle_element\<close>),
    the loop \<open>conv_run\<close>, the final flushes \<open>conv_finish\<close>, and the reachable states as the
    inductive \<open>conv_reachable\<close>.
  \<^item> \<^bold>\<open>Conversion_Runs\<close>: the lemmas that carry the step facts over whole runs, normal
    returns and exceptions alike, from which the root theory's properties follow.
  \<^item> \<^bold>\<open>Row_Shapes\<close>: the shape of the rows written (dicts with distinct keys, no
    \<open>type\<close> column in a record table) and the loop invariant that carries it.
  \<^item> \<^bold>\<open>Storage_Engine\<close>: sqlite-utils as the specification describes it (it is a
    library, not part of src/): a database maps table names to columns and rows;
    \<open>insert_all_db\<close> splits the rows into \<open>batch_size\<close> batches, each its own
    transaction (\<open>insert_chunks\<close>); a batch creates a missing table with the columns it
    has (\<open>keys_of\<close>, \<open>ordered_cols\<close>) and otherwise raises \<open>OperationalError\<close> on an
    unknown column unless \<open>alter=True\<close> (\<open>insert_chunk\<close>); \<open>insert_db\<close> adds the
    \<open>hash_id\<close> column holding \<open>h r\<close> and raises \<open>IntegrityError\<close> when that key is
    taken; \<open>apply_log\<close> runs a log of calls in order and stops at the first exception,
    returning the database reached and the exception.
  \<^item> \<^bold>\<open>Run_Storage\<close>: the converter and the engine together. The database a run leaves
    is \<open>apply_log h (outcome_log run) []\<close>, which is its log applied to the empty database up to the
    first call the engine rejects. \<open>call_ok\<close> fixes the shapes of the converter's calls;
    the lemmas show that applying such a log keeps the foreign key (\<open>db_fk\<close>), never
    meets a taken key when the hash separates distinct rows, only raises the exceptions
    its options allow, appends each bulk-written table's rows in order, and keeps the
    columns of a table written without \<open>alter\<close> those of its first batch.


  What is proved. The root theory (C1--C8) states what a whole run does: the foreign key
  of \<open>workout_points\<close> and the \<open>seq\<close> numbering hold on every outcome, errors included;
  on success, summaries and records are written in the batches the code promises, every
  workout is written, and progress adds up to the chunks read; the run does succeed on
  well-typed documents, and a syntax error always ends it with an exception. \<open>Orchestrator\<close> proves the
  loop invariant over all reachable states (C9). \<open>Tag_Stream\<close> proves that the read loop
  consumes the input exactly and that the generator equals a reference (the matching end
  events of the concatenated event stream) on streams without error (C10--C12);
  \<open>Record_Router\<close> proves that \<open>write_records\<close> refines an abstract grouping, routes every
  record to the table of its type and loses the whole batch on a record without type
  (C13--C15, C28), and that \<open>table_name\<close> maps both identifier prefixes and the bare
  name to one table (C17) and strips the identifier text wherever it occurs (C18);
  \<open>Workout_Assembler\<close> and \<open>Side_Files\<close> prove each branch of \<open>workout_to_db\<close>,
  including any number of side-car files (C19--C22, C24), the dict semantics of the
  metadata flattening (C27), and the path and header handling (C23, C25, C26).
  C31--C35 cover every outcome of a run again: the \<open>while True\<close> loop of the generator
  terminates with the recursive model's result; the progress reports are bounded byte
  counts whose sum never exceeds the input, with the sentinel at most once and last;
  every bulk insert is non-empty and within its flush size; given well-formed parser
  and track-point dicts, every row written is a dict with distinct keys with no
  \<open>type\<close> column in a record table; and a document without any element the converter
  handles makes no storage call.

  Bounds and fuel. No loop of the code can run forever on a finite input: the read loop
  terminates by the length of the remaining input (proved for the recursive model by its
  measure, and for the \<open>while_option\<close> form by showing that it returns \<open>Some\<close>), the other
  loops are structural recursions over lists. No fuel is needed.
  The chunk size is the code's \<open>1024 * 1024\<close>, and the flush sizes
  are 100 and 200 as written; \<open>sys.maxsize\<close> is that of a 64-bit CPython.

  Composition with the engine (C16, C29, C30, C36--C40). The database a run leaves keeps
  the foreign key of \<open>workout_points\<close> on every outcome; the workouts never collide on
  their \<open>hash_id\<close> unless the hash does, because \<open>seq\<close> makes their rows distinct; the
  only exceptions the engine can raise are an unknown column in \<open>activity_summary\<close> or
  \<open>workout_points\<close> and a taken workout key. Because those two tables are written
  without \<open>alter=True\<close>, a run the engine accepts has no summary attribute outside the
  first flushed batch and no point field outside the first 50 points (C29, C39); any
  other run is rejected. When nothing fails, \<open>workouts\<close> holds the inserted rows with
  their hash as \<open>id\<close> and \<open>seq\<close> 1, 2, 3, ...; \<open>activity_summary\<close> holds the
  document's summaries; and each record table holds the records routed to it, all in
  document order.

  Not modelled: the XML parser and gpxpy (parameters); of the storage engine, SQL itself,
  column types, the foreign key's declaration (recorded, not enforced) and the hash
  function (the parameter \<open>h\<close>); the CLI and progress bar (cli.py is not in src/);
  \<open>zipfile\<close> internals and file I/O other than which file is opened.
\<close>

definition demo_workout :: element where
  "demo_workout = Element ''Workout'' [] [Element ''WorkoutRoute'' [] [Element ''Location'' [(''latitude'', PStr ''1'')] []]]"

definition demo_summary :: element where
  "demo_summary = Element ''ActivitySummary'' [(''dateComponents'', PStr ''2020-01-01'')] []"

definition demo_doc_feed :: "unit \<Rightarrow> bytes \<Rightarrow> unit \<times> xml_event list" where
  "demo_doc_feed p c = ((), [EvStart (Element ''HealthData'' [] []), EvEnd demo_record, EvEnd demo_workout,
                             EvEnd demo_summary, EvEnd (Element ''HealthData'' [] [demo_record, demo_workout, demo_summary])])"

definition demo_env :: side_env where
  "demo_env = \<lparr>zip_archive = None, local_files = (\<lambda>_. None), gpx_walk = (\<lambda>_. None)\<rparr>"

definition demo_points_workout :: "string \<Rightarrow> element" where
  "demo_points_workout a = Element ''Workout'' [] [Element ''WorkoutRoute'' [] [Element ''Location'' [(a, PStr ''1'')] []]]"

definition demo_two_feed :: "unit \<Rightarrow> bytes \<Rightarrow> unit \<times> xml_event list" where
  "demo_two_feed p c = ((), [EvStart (Element ''HealthData'' [] []), EvEnd (demo_points_workout ''latitude''),
     EvEnd (demo_points_workout ''longitude''),
     EvEnd (Element ''HealthData'' [] [demo_points_workout ''latitude'', demo_points_workout ''longitude''])])"

definition demo_root_feed :: "unit \<Rightarrow> bytes \<Rightarrow> unit \<times> xml_event list" where
  "demo_root_feed p c = ((), [EvStart (Element ''HealthData'' [] []), EvEnd (Element ''HealthData'' [] [])])"

definition demo_seq_hash :: "row \<Rightarrow> string" where
  "demo_seq_hash r = (if map_of r ''seq'' = Some (PInt 1) then ''a'' else ''b'')"

lemma demo_chunks: "read_chunks chunk_size [0x3C :: 8 word] = [[0x3C]]"
  by (rule read_chunks_single) (simp_all add: chunk_size_def)

lemma demo_items:
  "find_all_tags demo_doc_feed () [0x3C] convert_tags True =
     ([Yield ''Record'' demo_record, Yield ''Workout'' demo_workout, Yield ''ActivitySummary'' demo_summary,
       Callback 1], None)"
proof -
  have "stream_ok (parser_events demo_doc_feed () (read_chunks chunk_size [0x3C]))"
    by (simp add: demo_chunks demo_doc_feed_def stream_ok_def starts_with_end_def)
  from find_all_tags_ok_eq [OF this] show ?thesis
    by (simp add: demo_chunks demo_doc_feed_def end_matches_def yield_of_def convert_tags_def
                  demo_record_def demo_workout_def demo_summary_def)
qed

lemma demo_workout_step:
  "handle_element demo_env h s ''Workout'' demo_workout =
     Inr (s\<lparr>workout_id := workout_id s + 1,
            db_log := db_log s @ [Insert ''workouts'' [(''seq'', PInt (workout_id s)), (''workout_events'', PList [])] workout_opts,
              InsertAll ''workout_points'' [[(''latitude'', PStr ''1''), (''workout_id'', PStr (h [(''seq'', PInt (workout_id s)), (''workout_events'', PList [])]))]] points_opts]\<rparr>)"
  by (simp add: handle_element_def workout_to_db_def workout_record_def demo_workout_def findall_single
                findall_two el_set_def Let_def insert_points_def tag_point_def)

lemma demo_run:
  "convert_xml_to_sqlite demo_doc_feed () demo_env (\<lambda>_. ''k'') [0x3C] True =
   Inr [Insert ''workouts'' [(''seq'', PInt 1), (''workout_events'', PList [])] workout_opts,
        InsertAll ''workout_points'' [[(''latitude'', PStr ''1''), (''workout_id'', PStr ''k'')]] points_opts,
        Progress 1,
        InsertAll ''rStepCount'' [[]] record_opts,
        InsertAll ''activity_summary'' [[(''dateComponents'', PStr ''2020-01-01'')]] default_opts,
        Progress sys_maxsize]"
  by (simp add: convert_xml_to_sqlite_def demo_items demo_record_step demo_workout_step)
     (simp add: handle_element_def demo_summary_def conv_init_def conv_finish_def write_records_def pop_type_def table_name_def py_replace_def
                quantity_prefix_def category_prefix_def)

lemma demo_doc_events:
  "parser_events demo_doc_feed () (read_chunks chunk_size [0x3C]) =
     [EvStart (Element ''HealthData'' [] []), EvEnd demo_record, EvEnd demo_workout,
      EvEnd demo_summary, EvEnd (Element ''HealthData'' [] [demo_record, demo_workout, demo_summary])]"
  by (simp add: demo_chunks demo_doc_feed_def)

lemma demo_two_items:
  "find_all_tags demo_two_feed () [0x3C] convert_tags True =
     ([Yield ''Workout'' (demo_points_workout ''latitude''), Yield ''Workout'' (demo_points_workout ''longitude''),
       Callback 1], None)"
proof -
  have "stream_ok (parser_events demo_two_feed () (read_chunks chunk_size [0x3C]))"
    by (simp add: demo_chunks demo_two_feed_def stream_ok_def starts_with_end_def)
  from find_all_tags_ok_eq [OF this] show ?thesis
    by (simp add: demo_chunks demo_two_feed_def end_matches_def yield_of_def convert_tags_def demo_points_workout_def)
qed

lemma demo_points_workout_step:
  "a \<noteq> ''workout_id'' \<Longrightarrow> handle_element demo_env h s ''Workout'' (demo_points_workout a) =
     Inr (s\<lparr>workout_id := workout_id s + 1,
            db_log := db_log s @ [Insert ''workouts'' [(''seq'', PInt (workout_id s)), (''workout_events'', PList [])] workout_opts,
              InsertAll ''workout_points'' [[(a, PStr ''1''), (''workout_id'', PStr (h [(''seq'', PInt (workout_id s)), (''workout_events'', PList [])]))]] points_opts]\<rparr>)"
  by (simp add: handle_element_def workout_to_db_def workout_record_def demo_points_workout_def findall_single
                findall_two el_set_def Let_def insert_points_def tag_point_def)

lemma demo_two_run:
  "convert_xml_to_sqlite demo_two_feed () demo_env demo_seq_hash [0x3C] True =
   Inr [Insert ''workouts'' [(''seq'', PInt 1), (''workout_events'', PList [])] workout_opts,
        InsertAll ''workout_points'' [[(''latitude'', PStr ''1''), (''workout_id'', PStr ''a'')]] points_opts,
        Insert ''workouts'' [(''seq'', PInt 2), (''workout_events'', PList [])] workout_opts,
        InsertAll ''workout_points'' [[(''longitude'', PStr ''1''), (''workout_id'', PStr ''b'')]] points_opts,
        Progress 1, Progress sys_maxsize]"
  by (simp add: convert_xml_to_sqlite_def demo_two_items demo_points_workout_step conv_init_def conv_finish_def demo_seq_hash_def)

text \<open>The engine accepts the whole log of the demonstration run.\<close>

lemma demo_store:
  "apply_log (\<lambda>_. ''k'') (outcome_log (convert_xml_to_sqlite demo_doc_feed () demo_env (\<lambda>_. ''k'') [0x3C] True)) [] =
     (fst (apply_log (\<lambda>_. ''k'') [Insert ''workouts'' [(''seq'', PInt 1), (''workout_events'', PList [])] workout_opts,
        InsertAll ''workout_points'' [[(''latitude'', PStr ''1''), (''workout_id'', PStr ''k'')]] points_opts,
        Progress 1, InsertAll ''rStepCount'' [[]] record_opts,
        InsertAll ''activity_summary'' [[(''dateComponents'', PStr ''2020-01-01'')]] default_opts, Progress sys_maxsize] []), None)"
proof -
  have "snd (apply_log (\<lambda>_. ''k'') [Insert ''workouts'' [(''seq'', PInt 1), (''workout_events'', PList [])] workout_opts,
        InsertAll ''workout_points'' [[(''latitude'', PStr ''1''), (''workout_id'', PStr ''k'')]] points_opts,
        Progress 1, InsertAll ''rStepCount'' [[]] record_opts,
        InsertAll ''activity_summary'' [[(''dateComponents'', PStr ''2020-01-01'')]] default_opts, Progress sys_maxsize] []) = None"
    by (simp add: insert_db_def insert_all_db_def insert_chunk_def workout_opts_def points_opts_def default_opts_def
                  record_opts_def rows_of_def keys_of_def ordered_cols_def read_chunks_single dict_keys_def dedup_def)
  then show ?thesis unfolding demo_run outcome_log_def sum.case by (metis prod.collapse)
qed

text \<open>
  C1. Whatever the input and whatever the collaborators do, every row written to
  \<open>workout_points\<close> refers by its \<open>workout_id\<close> to the primary key of a row written to
  \<open>workouts\<close> earlier in the run; this holds for the calls made before an exception too.
\<close>

theorem convert_foreign_keys:
  "workouts_fk h (outcome_log (convert_xml_to_sqlite feed p0 env h fp cb))"
  using convert_invariants [of feed p0 env h fp cb] by (simp add: workouts_fk_def)

theorem convert_foreign_keys_witness:
  "workouts_fk (\<lambda>_. ''k'') [Insert ''workouts'' [(''seq'', PInt 1), (''workout_events'', PList [])] workout_opts,
        InsertAll ''workout_points'' [[(''latitude'', PStr ''1''), (''workout_id'', PStr ''k'')]] points_opts,
        Progress 1, InsertAll ''rStepCount'' [[]] record_opts,
        InsertAll ''activity_summary'' [[(''dateComponents'', PStr ''2020-01-01'')]] default_opts, Progress sys_maxsize]"
  using convert_foreign_keys [of "\<lambda>_. ''k''" demo_doc_feed "()" demo_env "[0x3C]" True]
  by (simp only: demo_run outcome_log_def sum.case prod.case)

text \<open>
  C2. Whatever the outcome, the rows written to \<open>workouts\<close> carry \<open>seq = 1, 2, 3, ...\<close>
  in the order they are written (line 41 and the counter of lines 31 and 43).
\<close>

theorem convert_workout_seq:
  "seq_ok (outcome_log (convert_xml_to_sqlite feed p0 env h fp cb))"
  using convert_invariants [of feed p0 env h fp cb] by (rule conjunct1)

text \<open>
  C3. On success, the \<open>activity_summary\<close> table receives the attribute dicts of the
  document's \<open>ActivitySummary\<close> elements, in document order, in batches of exactly 100
  followed by one last shorter batch if any remain (lines 35--39 and 55--56).
\<close>

theorem convert_summary_batches:
  assumes "convert_xml_to_sqlite feed p0 env h fp cb = Inr l"
  shows "batches_to ''activity_summary'' l =
           read_chunks 100 (map el_attrib (end_matches {''ActivitySummary''} (parser_events feed p0 (read_chunks chunk_size fp))))"
  using assms by (rule summary_batches_Inr)

theorem convert_summary_batches_witness:
  "batches_to ''activity_summary''
     [Insert ''workouts'' [(''seq'', PInt 1), (''workout_events'', PList [])] workout_opts,
        InsertAll ''workout_points'' [[(''latitude'', PStr ''1''), (''workout_id'', PStr ''k'')]] points_opts,
        Progress 1, InsertAll ''rStepCount'' [[]] record_opts,
        InsertAll ''activity_summary'' [[(''dateComponents'', PStr ''2020-01-01'')]] default_opts, Progress sys_maxsize] =
   [[[(''dateComponents'', PStr ''2020-01-01'')]]]"
  using convert_summary_batches [OF demo_run]
  by (simp add: demo_doc_events end_matches_def demo_record_def demo_workout_def demo_summary_def)

text \<open>
  C4. On success, the document's \<open>Record\<close> elements are flattened one by one, and the
  record tables receive exactly the calls of flushing them in consecutive batches of 200
  and a last shorter batch (lines 44--51 and 53--54).
\<close>

theorem convert_record_batches:
  assumes "convert_xml_to_sqlite feed p0 env h fp cb = Inr l"
  shows "\<exists>RS. record_rows (end_matches {''Record''} (parser_events feed p0 (read_chunks chunk_size fp))) = Inr RS \<and>
              record_inserts l = concat (map record_inserts_of (read_chunks 200 RS))"
  using record_batches_Inr [OF assms] by blast

theorem convert_record_batches_witness:
  "record_inserts
     [Insert ''workouts'' [(''seq'', PInt 1), (''workout_events'', PList [])] workout_opts,
        InsertAll ''workout_points'' [[(''latitude'', PStr ''1''), (''workout_id'', PStr ''k'')]] points_opts,
        Progress 1, InsertAll ''rStepCount'' [[]] record_opts,
        InsertAll ''activity_summary'' [[(''dateComponents'', PStr ''2020-01-01'')]] default_opts, Progress sys_maxsize] =
   record_inserts_of [[(''type'', PStr ''HKQuantityTypeIdentifierStepCount'')]]"
proof -
  have rr: "record_rows [demo_record] = Inr [[(''type'', PStr ''HKQuantityTypeIdentifierStepCount'')]]"
    by (simp add: record_row_def demo_record_def findall_single)
  from convert_record_batches [OF demo_run] rr show ?thesis
    by (simp add: demo_doc_events end_matches_def demo_record_def demo_workout_def demo_summary_def read_chunks_single)
qed

text \<open>
  C5. On success with a callback, the callback receives the length of each chunk read, in
  order, and then \<open>sys.maxsize\<close>; without a callback nothing is reported.
\<close>

theorem convert_progress:
  assumes "convert_xml_to_sqlite feed p0 env h fp cb = Inr l"
  shows "progress_of l = (if cb then map (\<lambda>c. int (length c)) (read_chunks chunk_size fp) @ [sys_maxsize] else [])"
proof -
  from convert_Inr [OF assms] obtain s where
    run: "conv_run env h conv_init (gen_reference feed convert_tags cb p0 (read_chunks chunk_size fp)) = Inr s"
    and fin: "conv_finish cb s = Inr l" by blast
  from conv_finish_Inr [OF fin, of h] conv_run_progress [OF run] show ?thesis
    by (simp add: callbacks_gen_reference conv_init_def)
qed

theorem convert_progress_witness:
  "progress_of
     [Insert ''workouts'' [(''seq'', PInt 1), (''workout_events'', PList [])] workout_opts,
        InsertAll ''workout_points'' [[(''latitude'', PStr ''1''), (''workout_id'', PStr ''k'')]] points_opts,
        Progress 1, InsertAll ''rStepCount'' [[]] record_opts,
        InsertAll ''activity_summary'' [[(''dateComponents'', PStr ''2020-01-01'')]] default_opts, Progress sys_maxsize] =
   [1, sys_maxsize]"
  using convert_progress [OF demo_run] by (simp add: demo_chunks)

text \<open>
  C6. A run succeeds only on a stream the extractor accepts, and then it writes one
  \<open>workouts\<close> row per \<open>Workout\<close> element of the document.
\<close>

theorem convert_workouts_all:
  assumes "convert_xml_to_sqlite feed p0 env h fp cb = Inr l"
  shows "stream_ok (parser_events feed p0 (read_chunks chunk_size fp)) \<and>
         length (inserts_to ''workouts'' l) = length (end_matches {''Workout''} (parser_events feed p0 (read_chunks chunk_size fp)))"
proof -
  from convert_Inr [OF assms] obtain s where ok: "stream_ok (parser_events feed p0 (read_chunks chunk_size fp))" and
    run: "conv_run env h conv_init (gen_reference feed convert_tags cb p0 (read_chunks chunk_size fp)) = Inr s"
    and fin: "conv_finish cb s = Inr l" by blast
  have i0: "seq_inv conv_init" "fk_from h [] (db_log conv_init)"
    by (simp_all add: seq_inv_init) (simp add: conv_init_def)
  from ok conv_finish_Inr [OF fin, of h] conv_run_invariants [OF run i0] show ?thesis
    by (simp add: yields_gen_reference tagged_end_matches convert_tags_def conv_init_def)
qed

theorem convert_workouts_all_witness:
  "stream_ok (parser_events demo_doc_feed () (read_chunks chunk_size [0x3C])) \<and>
   length (inserts_to ''workouts''
     [Insert ''workouts'' [(''seq'', PInt 1), (''workout_events'', PList [])] workout_opts,
        InsertAll ''workout_points'' [[(''latitude'', PStr ''1''), (''workout_id'', PStr ''k'')]] points_opts,
        Progress 1, InsertAll ''rStepCount'' [[]] record_opts,
        InsertAll ''activity_summary'' [[(''dateComponents'', PStr ''2020-01-01'')]] default_opts, Progress sys_maxsize]) = 1"
  using convert_workouts_all [OF demo_run]
  by (simp add: demo_doc_events end_matches_def demo_record_def demo_workout_def demo_summary_def)

text \<open>
  C7. The conversion returns normally on every stream the extractor accepts whose
  \<open>Record\<close> elements flatten without error into rows with a string \<open>type\<close>, and whose
  \<open>Workout\<close> elements are each written without error: so the properties C3--C6 of a
  successful run are not vacuous.
\<close>

theorem convert_ok:
  assumes "stream_ok (parser_events feed p0 (read_chunks chunk_size fp))"
    and "record_rows (end_matches {''Record''} (parser_events feed p0 (read_chunks chunk_size fp))) = Inr RS"
    and "\<forall>r \<in> set RS. typed_row r"
    and "\<forall>w \<in> set (end_matches {''Workout''} (parser_events feed p0 (read_chunks chunk_size fp))).
           \<forall>v l. \<exists>l'. workout_to_db env h (el_set w ''seq'' v) l = Inr l'"
  shows "\<exists>l. convert_xml_to_sqlite feed p0 env h fp cb = Inr l"
proof -
  let ?items = "gen_reference feed convert_tags cb p0 (read_chunks chunk_size fp)"
  have y: "tagged t (yields ?items) = end_matches {t} (parser_events feed p0 (read_chunks chunk_size fp))"
    if "t \<in> convert_tags" for t
    using that by (simp add: yields_gen_reference tagged_end_matches)
  have "''Record'' \<in> convert_tags" "''Workout'' \<in> convert_tags" by (simp_all add: convert_tags_def)
  with assms(2-4) y obtain s where run: "conv_run env h conv_init ?items = Inr s"
    and typed: "\<forall>r \<in> set (records s). typed_row r"
    using conv_run_ok [of ?items RS conv_init env h] by (auto simp: conv_init_def)
  from conv_finish_ok [OF typed] obtain l where "conv_finish cb s = Inr l" by blast
  with run find_all_tags_ok_eq [OF assms(1)] show ?thesis by (simp add: convert_xml_to_sqlite_def)
qed

theorem convert_ok_witness:
  "\<exists>l. convert_xml_to_sqlite demo_doc_feed () demo_env (\<lambda>_. ''k'') [0x3C] True = Inr l"
proof -
  have w: "workout_to_db demo_env (\<lambda>_. ''k'') (el_set demo_workout ''seq'' v) l \<noteq> Inl err" for v l err
    by (simp add: workout_to_db_def workout_record_def demo_workout_def findall_single
                  findall_two el_set_def Let_def insert_points_def tag_point_def)
  have "\<forall>v l. \<exists>l'. workout_to_db demo_env (\<lambda>_. ''k'') (el_set demo_workout ''seq'' v) l = Inr l'"
    using w by (metis sum.exhaust)
  moreover have "record_rows [demo_record] = Inr [[(''type'', PStr ''HKQuantityTypeIdentifierStepCount'')]]"
    by (simp add: record_row_def demo_record_def findall_single)
  ultimately show ?thesis
    by (intro convert_ok [where RS = "[[(''type'', PStr ''HKQuantityTypeIdentifierStepCount'')]]"])
       (simp_all add: demo_doc_events end_matches_def demo_record_def demo_workout_def demo_summary_def
                      stream_ok_def starts_with_end_def typed_row_def)
qed

text \<open>
  C8. A stream on which the parser reports a syntax error ends the conversion with an
  exception, whatever was written before it.
\<close>

theorem convert_parse_error:
  assumes "EvError \<in> set (parser_events feed p0 (read_chunks chunk_size fp))"
  shows "\<exists>e l. convert_xml_to_sqlite feed p0 env h fp cb = Inl (e, l)"
proof -
  obtain items gerr where fa: "find_all_tags feed p0 fp convert_tags cb = (items, gerr)" by fastforce
  from find_all_chunks_raises [OF assms, of convert_tags cb None] fa obtain e where "gerr = Some e"
    by (auto simp: find_all_tags_def)
  with fa show ?thesis by (auto simp: convert_xml_to_sqlite_def split: sum.splits)
qed

theorem convert_parse_error_witness:
  "\<exists>e l. convert_xml_to_sqlite (\<lambda>p c. ((), [EvError])) () demo_env (\<lambda>_. ''k'') [0x3C] True = Inl (e, l)"
  by (rule convert_parse_error) (simp add: demo_chunks)

text \<open>
  C32. On every outcome the progress reports are byte counts between 1 and the chunk size
  whose sum never exceeds the input size, and the sentinel \<open>sys.maxsize\<close> (which no byte
  count can equal) occurs at most once, as the last report.
\<close>

theorem convert_progress_bounds:
  "sys_maxsize \<notin> set (butlast (progress_of (outcome_log (convert_xml_to_sqlite feed p0 env h fp cb)))) \<and>
   list_all (\<lambda>x. 0 < x \<and> x \<le> int chunk_size)
     (filter (\<lambda>x. x \<noteq> sys_maxsize) (progress_of (outcome_log (convert_xml_to_sqlite feed p0 env h fp cb)))) \<and>
   sum_list (filter (\<lambda>x. x \<noteq> sys_maxsize) (progress_of (outcome_log (convert_xml_to_sqlite feed p0 env h fp cb))))
     \<le> int (length fp)"
proof -
  from convert_progress_prefix [of feed p0 env h fp cb] obtain k where
    pk: "progress_of (outcome_log (convert_xml_to_sqlite feed p0 env h fp cb)) =
         (if cb then map (\<lambda>c. int (length c)) (take k (read_chunks chunk_size fp)) else []) @
         (case convert_xml_to_sqlite feed p0 env h fp cb of Inl _ \<Rightarrow> [] | Inr _ \<Rightarrow> if cb then [sys_maxsize] else [])" ..
  let ?M = "map (\<lambda>c. int (length c)) (take k (read_chunks chunk_size fp))"
  have m1: "\<forall>x \<in> set ?M. 0 < x \<and> x \<le> int chunk_size" and m2: "sum_list ?M \<le> int (length fp)"
    using chunk_reports_bounds [of k fp] by simp_all
  have m3: "sys_maxsize \<notin> set ?M"
  proof
    assume "sys_maxsize \<in> set ?M"
    with m1 have "sys_maxsize \<le> int chunk_size" by blast
    with chunk_size_lt_maxsize show False by simp
  qed
  have f: "filter (\<lambda>x. x \<noteq> sys_maxsize) ?M = ?M"
  proof (rule filter_True)
    show "\<forall>x \<in> set ?M. x \<noteq> sys_maxsize" using m3 by blast
  qed
  have fs: "filter (\<lambda>x. x \<noteq> sys_maxsize) (?M @ [sys_maxsize]) = ?M" using f by simp
  have bl: "sys_maxsize \<notin> set (butlast ?M)" using m3 in_set_butlastD by fast
  have la: "list_all (\<lambda>x. 0 < x \<and> x \<le> int chunk_size) ?M" using m1 by (simp add: list_all_iff)
  consider "progress_of (outcome_log (convert_xml_to_sqlite feed p0 env h fp cb)) = ?M"
    | "progress_of (outcome_log (convert_xml_to_sqlite feed p0 env h fp cb)) = ?M @ [sys_maxsize]"
    | "progress_of (outcome_log (convert_xml_to_sqlite feed p0 env h fp cb)) = []"
    using pk by (cases cb; cases "convert_xml_to_sqlite feed p0 env h fp cb") simp_all
  then show ?thesis
  proof cases
    case 1
    with f bl la m2 show ?thesis by simp
  next
    case 2
    with fs m3 la m2 show ?thesis by (simp add: butlast_append)
  next
    case 3
    then show ?thesis by simp
  qed
qed

text \<open>
  C33. On every outcome no bulk insert the run issues is empty, no insert into
  \<open>activity_summary\<close> carries more than 100 rows and no insert into a record table
  more than 200: the flush thresholds the specification states hold for every call.
\<close>

theorem convert_insert_sizes: "list_all insert_ok (outcome_log (convert_xml_to_sqlite feed p0 env h fp cb))"
  by (rule convert_inserts_ok)

text \<open>
  C34. When the parser's elements and gpxpy's track points are dicts with distinct keys,
  every row the run writes, on every outcome, is a dict with distinct keys, and no row
  written to a record table has a \<open>type\<close> column (the record's type is consumed).
\<close>

theorem convert_rows_ok:
  assumes "list_all ev_ok (parser_events feed p0 (read_chunks chunk_size fp))" and "gpx_rows_ok env"
  shows "list_all row_ok (outcome_log (convert_xml_to_sqlite feed p0 env h fp cb))"
proof (rule convert_preserves [where Q = rows_inv and I = "\<lambda>it. list_all (\<lambda>(t, e). el_ok e) (yields [it])"])
  fix s it s' assume q: "rows_inv s" and y: "list_all (\<lambda>(t, e). el_ok e) (yields [it])"
    and st: "conv_step env h s it = Inr s'"
  from st q y assms(2) show "rows_inv s'" by (rule conv_step_rows_inv)
next
  fix s it e l assume q: "rows_inv s" and y: "list_all (\<lambda>(t, e). el_ok e) (yields [it])"
    and st: "conv_step env h s it = Inl (e, l)"
  from st q y show "list_all row_ok l" by (rule conv_step_rows_inv_Inl)
next
  from assms(1) show "list_all (\<lambda>it. list_all (\<lambda>(t, e). el_ok e) (yields [it])) (fst (find_all_tags feed p0 fp convert_tags cb))"
    by (rule find_all_tags_yields_ok)
next
  show "rows_inv conv_init" by (simp add: rows_inv_def conv_init_def)
next
  fix s assume "rows_inv s"
  then show "list_all row_ok (db_log s)" by (simp add: rows_inv_def)
next
  fix s l assume q: "rows_inv s" and f: "conv_finish cb s = Inr l"
  from f q show "list_all row_ok l" by (rule conv_finish_rows_ok)
qed

theorem convert_rows_ok_witness:
  "list_all row_ok
     [Insert ''workouts'' [(''seq'', PInt 1), (''workout_events'', PList [])] workout_opts,
      InsertAll ''workout_points'' [[(''latitude'', PStr ''1''), (''workout_id'', PStr ''k'')]] points_opts,
      Progress 1, InsertAll ''rStepCount'' [[]] record_opts,
      InsertAll ''activity_summary'' [[(''dateComponents'', PStr ''2020-01-01'')]] default_opts, Progress sys_maxsize]"
proof -
  have "list_all ev_ok (parser_events demo_doc_feed () (read_chunks chunk_size [0x3C]))"
    by (simp add: demo_doc_events demo_record_def demo_workout_def demo_summary_def dict_ok_def dict_keys_def)
  moreover have "gpx_rows_ok demo_env" by (simp add: demo_env_def)
  ultimately show ?thesis
    using convert_rows_ok [of demo_doc_feed "()" "[0x3C]" demo_env "\<lambda>_. ''k''" True]
    by (simp only: demo_run outcome_log_def sum.case)
qed

text \<open>
  C35. A document in which the parser reports no \<open>Record\<close>, \<open>Workout\<close> or
  \<open>ActivitySummary\<close> element, and no error, makes no storage call at all: the run
  returns normally, and its only effects are the progress reports of the chunks read and
  the sentinel, when a callback is given.
\<close>

theorem convert_no_elements:
  assumes "stream_ok (parser_events feed p0 (read_chunks chunk_size fp))"
    and "end_matches convert_tags (parser_events feed p0 (read_chunks chunk_size fp)) = []"
  shows "convert_xml_to_sqlite feed p0 env h fp cb =
           Inr (if cb then map (\<lambda>c. Progress (int (length c))) (read_chunks chunk_size fp) @ [Progress sys_maxsize]
                else [])"
proof -
  have items: "find_all_tags feed p0 fp convert_tags cb =
                 (map Callback (if cb then map length (read_chunks chunk_size fp) else []), None)"
    using find_all_tags_ok_eq [OF assms(1)] gen_reference_no_matches [OF assms(2), of cb] by simp
  show ?thesis
    by (simp add: convert_xml_to_sqlite_def items conv_run_callbacks conv_finish_def conv_init_def comp_def)
qed

theorem convert_no_elements_witness:
  "convert_xml_to_sqlite demo_root_feed () demo_env (\<lambda>_. ''k'') [0x3C] True = Inr [Progress 1, Progress sys_maxsize]"
proof -
  have s: "stream_ok (parser_events demo_root_feed () (read_chunks chunk_size [0x3C]))"
    by (simp add: demo_chunks demo_root_feed_def stream_ok_def starts_with_end_def)
  have e: "end_matches convert_tags (parser_events demo_root_feed () (read_chunks chunk_size [0x3C])) = []"
    by (simp add: demo_chunks demo_root_feed_def end_matches_def convert_tags_def)
  from convert_no_elements [OF s e, of demo_env "\<lambda>_. ''k''" True] show ?thesis by (simp add: demo_chunks)

qed

text \<open>
  C36. Whatever the outcome, the database the run leaves satisfies the declared
  foreign key: every stored point names the identifier of a stored workout.
\<close>

theorem convert_db_foreign_keys:
  "db_fk (fst (apply_log h (outcome_log (convert_xml_to_sqlite feed p0 env h fp cb)) []))"
proof (rule apply_log_fk)
  show "fk_from h [] (outcome_log (convert_xml_to_sqlite feed p0 env h fp cb))"
    using convert_invariants [of feed p0 env h fp cb] by (rule conjunct2)
  show "list_all call_ok (outcome_log (convert_xml_to_sqlite feed p0 env h fp cb))"
    by (rule convert_calls_ok)
qed (simp_all add: db_fk_def rows_of_def)

text \<open>
  C37. If the hash separates the workout rows of a run, inserting them never raises
  \<open>IntegrityError\<close>: the \<open>seq\<close> column makes the rows distinct, so equal hashes
  come only from a collision.
\<close>

theorem convert_no_key_conflict:
  assumes "inj_on h (set (inserts_to ''workouts'' (outcome_log (convert_xml_to_sqlite feed p0 env h fp cb))))"
  shows "snd (apply_log h (outcome_log (convert_xml_to_sqlite feed p0 env h fp cb)) []) \<noteq> Some (IntegrityError t)"
proof (rule apply_log_no_conflict [where ws = "[]"])
  show "list_all call_ok (outcome_log (convert_xml_to_sqlite feed p0 env h fp cb))"
    by (rule convert_calls_ok)
  have "seq_ok (outcome_log (convert_xml_to_sqlite feed p0 env h fp cb))"
    using convert_invariants [of feed p0 env h fp cb] by (rule conjunct1)
  then show "distinct ([] @ inserts_to ''workouts'' (outcome_log (convert_xml_to_sqlite feed p0 env h fp cb)))"
    by (simp add: seq_ok_distinct)
qed (use assms in \<open>simp_all add: workout_ids_def rows_of_def\<close>)

theorem convert_no_key_conflict_witness:
  "inj_on demo_seq_hash {[(''seq'', PInt 1), (''workout_events'', PList [])], [(''seq'', PInt 2), (''workout_events'', PList [])]} \<and>
   snd (apply_log demo_seq_hash
     [Insert ''workouts'' [(''seq'', PInt 1), (''workout_events'', PList [])] workout_opts,
      InsertAll ''workout_points'' [[(''latitude'', PStr ''1''), (''workout_id'', PStr ''a'')]] points_opts,
      Insert ''workouts'' [(''seq'', PInt 2), (''workout_events'', PList [])] workout_opts,
      InsertAll ''workout_points'' [[(''longitude'', PStr ''1''), (''workout_id'', PStr ''b'')]] points_opts,
      Progress 1, Progress sys_maxsize] []) \<noteq> Some (IntegrityError ''workouts'')"
  using convert_no_key_conflict [of demo_seq_hash demo_two_feed "()" demo_env "[0x3C]" True "''workouts''"]
  by (simp add: demo_two_run demo_seq_hash_def outcome_log_def insert_commute)

text \<open>
  C38. The only exceptions the engine raises on a run's calls are an unknown column in
  \<open>activity_summary\<close> or \<open>workout_points\<close> (written without \<open>alter=True\<close>) and a
  duplicate workout identifier; record tables, written with \<open>alter=True\<close>, never fail.
\<close>

theorem convert_store_errors:
  "case snd (apply_log h (outcome_log (convert_xml_to_sqlite feed p0 env h fp cb)) []) of
     None \<Rightarrow> True
   | Some e \<Rightarrow> (\<exists>c. e = OperationalError ''activity_summary'' c) \<or>
               (\<exists>c. e = OperationalError ''workout_points'' c) \<or> e = IntegrityError ''workouts''"
proof (cases "apply_log h (outcome_log (convert_xml_to_sqlite feed p0 env h fp cb)) []")
  case (Pair d' e)
  show ?thesis
  proof (cases e)
    case (Some err)
    from apply_log_error [OF convert_calls_ok Pair [unfolded Some]] Pair Some show ?thesis by simp
  qed (use Pair in simp)
qed

text \<open>
  C39. \<open>workout_points\<close> is written without \<open>alter=True\<close>, so its columns are those
  of the first batch of 50 points: whatever the outcome, when the engine accepts every
  call, no point of the run has a field the first 50 points written lack. A later workout
  whose route points have other fields makes the engine raise instead.
\<close>

theorem convert_points_schema:
  assumes "apply_log h (outcome_log (convert_xml_to_sqlite feed p0 env h fp cb)) [] = (d, None)"
    and "batches_to ''workout_points'' (outcome_log (convert_xml_to_sqlite feed p0 env h fp cb)) = B # Bs"
  shows "set (keys_of (concat (B # Bs))) \<subseteq> set (keys_of (take 50 B))"
  using apply_log_schema_first [OF convert_calls_ok convert_inserts_ok assms(1) _ _ assms(2)] by simp

theorem convert_points_schema_witness:
  "set (keys_of (concat [[[(''latitude'', PStr ''1''), (''workout_id'', PStr ''k'')]]])) \<subseteq>
   set (keys_of (take 50 [[(''latitude'', PStr ''1''), (''workout_id'', PStr ''k'')]]))"
proof -
  have "batches_to ''workout_points'' (outcome_log (convert_xml_to_sqlite demo_doc_feed () demo_env (\<lambda>_. ''k'') [0x3C] True)) =
          [[(''latitude'', PStr ''1''), (''workout_id'', PStr ''k'')]] # []"
    unfolding demo_run outcome_log_def sum.case by simp
  from convert_points_schema [OF demo_store this] show ?thesis .
qed

text \<open>
  C40. When the run succeeds and the engine accepts every call, the
  \<open>activity_summary\<close> table holds the attribute dicts of the document's
  \<open>ActivitySummary\<close> elements, in document order.
\<close>

theorem convert_summary_rows:
  assumes "convert_xml_to_sqlite feed p0 env h fp cb = Inr l" and "apply_log h l [] = (d, None)"
  shows "rows_of d ''activity_summary'' =
           map el_attrib (end_matches {''ActivitySummary''} (parser_events feed p0 (read_chunks chunk_size fp)))"
proof -
  from convert_calls_ok [of feed p0 env h fp cb] assms(1) have "list_all call_ok l" by (simp add: outcome_log_def)
  from apply_log_rows [OF this assms(2)] summary_batches_Inr [OF assms(1)] show ?thesis
    by (simp add: rows_of_def read_chunks_concat)
qed

theorem convert_summary_rows_witness:
  "snd (apply_log (\<lambda>_. ''k'')
     [Insert ''workouts'' [(''seq'', PInt 1), (''workout_events'', PList [])] workout_opts,
      InsertAll ''workout_points'' [[(''latitude'', PStr ''1''), (''workout_id'', PStr ''k'')]] points_opts,
      Progress 1, InsertAll ''rStepCount'' [[]] record_opts,
      InsertAll ''activity_summary'' [[(''dateComponents'', PStr ''2020-01-01'')]] default_opts, Progress sys_maxsize] []) = None \<and>
   rows_of (fst (apply_log (\<lambda>_. ''k'')
     [Insert ''workouts'' [(''seq'', PInt 1), (''workout_events'', PList [])] workout_opts,
      InsertAll ''workout_points'' [[(''latitude'', PStr ''1''), (''workout_id'', PStr ''k'')]] points_opts,
      Progress 1, InsertAll ''rStepCount'' [[]] record_opts,
      InsertAll ''activity_summary'' [[(''dateComponents'', PStr ''2020-01-01'')]] default_opts, Progress sys_maxsize] []))
     ''activity_summary'' = [[(''dateComponents'', PStr ''2020-01-01'')]]"
proof -
  let ?l = "[Insert ''workouts'' [(''seq'', PInt 1), (''workout_events'', PList [])] workout_opts,
        InsertAll ''workout_points'' [[(''latitude'', PStr ''1''), (''workout_id'', PStr ''k'')]] points_opts,
        Progress 1, InsertAll ''rStepCount'' [[]] record_opts,
        InsertAll ''activity_summary'' [[(''dateComponents'', PStr ''2020-01-01'')]] default_opts, Progress sys_maxsize]"
  have s: "apply_log (\<lambda>_. ''k'') ?l [] = (fst (apply_log (\<lambda>_. ''k'') ?l []), None)"
    using demo_store unfolding demo_run outcome_log_def sum.case .
  have ev: "map el_attrib (end_matches {''ActivitySummary''} (parser_events demo_doc_feed () (read_chunks chunk_size [0x3C]))) =
              [[(''dateComponents'', PStr ''2020-01-01'')]]"
    by (simp add: demo_doc_events end_matches_def demo_record_def demo_workout_def demo_summary_def)
  have "snd (apply_log (\<lambda>_. ''k'') ?l []) = None" by (subst s) (rule snd_conv)
  with convert_summary_rows [OF demo_run s] ev show ?thesis by (simp only:)
qed

text \<open>
  C16. When the run succeeds and the engine accepts every call, each record table holds
  exactly the document's records routed to it, with \<open>type\<close> popped, in document order.
\<close>

theorem convert_record_rows:
  assumes "convert_xml_to_sqlite feed p0 env h fp cb = Inr l" and "apply_log h l [] = (d, None)"
    and "record_table t"
  shows "\<exists>RS ps. record_rows (end_matches {''Record''} (parser_events feed p0 (read_chunks chunk_size fp))) = Inr RS \<and>
                pop_all RS = Inr ps \<and> rows_of d t = vals_of t ps"
proof -
  from record_batches_Inr [OF assms(1)] obtain RS ps where
    rr: "record_rows (end_matches {''Record''} (parser_events feed p0 (read_chunks chunk_size fp))) = Inr RS"
    and ins: "record_inserts l = concat (map record_inserts_of (read_chunks 200 RS))"
    and pop: "pop_all RS = Inr ps" by blast
  from convert_calls_ok [of feed p0 env h fp cb] assms(1) have ok: "list_all call_ok l" by (simp add: outcome_log_def)
  from assms(3) have "t \<noteq> ''workouts''" by simp
  from apply_log_rows [OF ok assms(2) this] have "rows_of d t = concat (batches_to t l)" by (simp add: rows_of_def)
  also have "\<dots> = concat (batches_to t (concat (map record_inserts_of (read_chunks 200 RS))))"
    using batches_to_record_inserts [OF assms(3), of l] ins by simp
  also have "\<dots> = vals_of t ps"
    using pop read_chunks_concat [of 200 RS] by (intro record_chunks_rows) simp
  finally show ?thesis using rr pop by blast
qed

theorem convert_record_rows_witness:
  "\<exists>RS ps. record_rows (end_matches {''Record''} (parser_events demo_doc_feed () (read_chunks chunk_size [0x3C]))) = Inr RS \<and>
     pop_all RS = Inr ps \<and>
     rows_of (fst (apply_log (\<lambda>_. ''k'')
       [Insert ''workouts'' [(''seq'', PInt 1), (''workout_events'', PList [])] workout_opts,
        InsertAll ''workout_points'' [[(''latitude'', PStr ''1''), (''workout_id'', PStr ''k'')]] points_opts,
        Progress 1, InsertAll ''rStepCount'' [[]] record_opts,
        InsertAll ''activity_summary'' [[(''dateComponents'', PStr ''2020-01-01'')]] default_opts, Progress sys_maxsize] []))
       ''rStepCount'' = vals_of ''rStepCount'' ps"
proof -
  have "record_table ''rStepCount''" by (simp add: record_table_def)
  with demo_store show ?thesis unfolding demo_run outcome_log_def sum.case by (rule convert_record_rows [OF demo_run])
qed

text \<open>
  C29. \<open>activity_summary\<close> is written without \<open>alter=True\<close>, so its columns are
  those of the first batch flushed: whatever the outcome, when the engine accepts every
  call, no summary of the run has an attribute the first 100 summaries lack.
\<close>

theorem convert_summary_schema:
  assumes "apply_log h (outcome_log (convert_xml_to_sqlite feed p0 env h fp cb)) [] = (d, None)"
    and "batches_to ''activity_summary'' (outcome_log (convert_xml_to_sqlite feed p0 env h fp cb)) = S # Ss"
  shows "set (keys_of (concat (S # Ss))) \<subseteq> set (keys_of S)"
proof -
  let ?l = "outcome_log (convert_xml_to_sqlite feed p0 env h fp cb)"
  have ins: "list_all insert_ok ?l" by (rule convert_inserts_ok)
  from batches_to_summary_size [OF ins] assms(2) have "length S \<le> 100" by simp
  with apply_log_schema_first [OF convert_calls_ok ins assms(1) _ _ assms(2)] show ?thesis
    by simp
qed

theorem convert_summary_schema_witness:
  "set (keys_of (concat [[[(''dateComponents'', PStr ''2020-01-01'')]]])) \<subseteq>
   set (keys_of [[(''dateComponents'', PStr ''2020-01-01'')]])"
proof -
  have "batches_to ''activity_summary'' (outcome_log (convert_xml_to_sqlite demo_doc_feed () demo_env (\<lambda>_. ''k'') [0x3C] True)) =
          [[(''dateComponents'', PStr ''2020-01-01'')]] # []"
    unfolding demo_run outcome_log_def sum.case by simp
  from convert_summary_schema [OF demo_store this] show ?thesis .
qed

text \<open>
  C30. Whatever the outcome, when the engine accepts every call the \<open>workouts\<close> table
  holds the rows the run inserted, in order, each with its hash as \<open>id\<close>, so its
  \<open>seq\<close> column reads \<open>1, 2, 3, ...\<close>.
\<close>

theorem convert_workout_rows:
  assumes "apply_log h (outcome_log (convert_xml_to_sqlite feed p0 env h fp cb)) [] = (d, None)"
  shows "rows_of d ''workouts'' =
           map (\<lambda>r. dict_set r ''id'' (PStr (h r))) (inserts_to ''workouts'' (outcome_log (convert_xml_to_sqlite feed p0 env h fp cb))) \<and>
         map (\<lambda>r. map_of r ''seq'') (rows_of d ''workouts'') =
           map (\<lambda>k. Some (PInt (int k))) [1..<Suc (length (rows_of d ''workouts''))]"
proof -
  have rows: "rows_of d ''workouts'' =
      map (\<lambda>r. dict_set r ''id'' (PStr (h r))) (inserts_to ''workouts'' (outcome_log (convert_xml_to_sqlite feed p0 env h fp cb)))"
    using apply_log_workouts [OF convert_calls_ok assms] by (simp add: rows_of_def)
  let ?I = "inserts_to ''workouts'' (outcome_log (convert_xml_to_sqlite feed p0 env h fp cb))"
  have "seq_ok (outcome_log (convert_xml_to_sqlite feed p0 env h fp cb))"
    using convert_invariants [of feed p0 env h fp cb] by (rule conjunct1)
  then have sq: "map (\<lambda>r. map_of r ''seq'') ?I = map (\<lambda>k. Some (PInt (int k))) [1..<Suc (length ?I)]"
    by (simp only: seq_ok_def)
  have m: "map (\<lambda>r. map_of r ''seq'') (rows_of d ''workouts'') = map (\<lambda>r. map_of r ''seq'') ?I"
    unfolding rows by simp
  have len: "length (rows_of d ''workouts'') = length ?I" unfolding rows by simp
  from rows sq m len show ?thesis by simp
qed

theorem convert_workout_rows_witness:
  "rows_of (fst (apply_log (\<lambda>_. ''k'')
       [Insert ''workouts'' [(''seq'', PInt 1), (''workout_events'', PList [])] workout_opts,
        InsertAll ''workout_points'' [[(''latitude'', PStr ''1''), (''workout_id'', PStr ''k'')]] points_opts,
        Progress 1, InsertAll ''rStepCount'' [[]] record_opts,
        InsertAll ''activity_summary'' [[(''dateComponents'', PStr ''2020-01-01'')]] default_opts, Progress sys_maxsize] []))
     ''workouts'' = [[(''seq'', PInt 1), (''workout_events'', PList []), (''id'', PStr ''k'')]]"
  using conjunct1 [OF convert_workout_rows [OF demo_store]] unfolding demo_run outcome_log_def sum.case by simp

end
